theory Spec2Isabelle
  imports Main
begin

section \<open>Tic-tac-toe with move history: the model of App.js\<close>

subsection \<open>JavaScript values and arrays\<close>

text \<open>
  A square holds \<open>null\<close>, the string \<open>'X'\<close> or the string \<open>'O'\<close>. Reading a key
  that an array does not have yields \<open>undefined\<close>, which is the constructor \<open>Absent\<close>.
  The program never stores \<open>undefined\<close> itself, so an \<open>Absent\<close> element of a list
  always stands for a hole of the array (an index below \<open>length\<close> that was never
  written).
\<close>

datatype cell = Absent | Null | MarkX | MarkO

text \<open>JavaScript truthiness: \<open>undefined\<close> and \<open>null\<close> are falsy, a non-empty string is truthy.\<close>

fun truthy :: "cell \<Rightarrow> bool" where
  "truthy Absent = False"
| "truthy Null = False"
| "truthy MarkX = True"
| "truthy MarkO = True"

text \<open>
  An integer key is an array index when it lies between 0 and 4294967294. Every other
  integer key (a negative one, or one from 4294967295 on) names an ordinary property of
  the array object: writing it neither touches the elements nor changes \<open>length\<close>.
\<close>

definition is_array_index :: "int \<Rightarrow> bool" where
  "is_array_index i = (0 \<le> i \<and> i < 4294967295)"

text \<open>
  An array object: its indexed elements, positions 0 to \<open>length - 1\<close>, and its other
  integer-keyed properties in the order they were created.
\<close>

record jsarray =
  elems :: "cell list"
  props :: "(int \<times> cell) list"

text \<open>An array that has elements only, such as \<open>Array(9).fill(null)\<close>.\<close>

definition plain :: "cell list \<Rightarrow> jsarray" where
  "plain xs = \<lparr>elems = xs, props = []\<rparr>"

text \<open>The element at an array index: an index past the end reads \<open>undefined\<close>.\<close>

definition js_get :: "cell list \<Rightarrow> nat \<Rightarrow> cell" where
  "js_get xs i = (if i < length xs then xs ! i else Absent)"

text \<open>Storing a property: an existing key keeps its place, a new key goes last.\<close>

fun put_prop :: "int \<Rightarrow> cell \<Rightarrow> (int \<times> cell) list \<Rightarrow> (int \<times> cell) list" where
  "put_prop k v [] = [(k, v)]"
| "put_prop k v ((k', v') # ps) = (if k' = k then (k, v) # ps else (k', v') # put_prop k v ps)"

text \<open>\<open>squares[i]\<close> for an integer key \<open>i\<close>.\<close>

definition array_get :: "jsarray \<Rightarrow> int \<Rightarrow> cell" where
  "array_get a i =
     (if is_array_index i then js_get (elems a) (nat i)
      else (case map_of (props a) i of None \<Rightarrow> Absent | Some v \<Rightarrow> v))"

text \<open>
  \<open>squares[i] = v\<close> for an integer key \<open>i\<close>. An array index past the end extends the
  array, leaving holes between the old end and the new element; a key that is not an
  array index becomes a property.
\<close>

definition array_set :: "jsarray \<Rightarrow> int \<Rightarrow> cell \<Rightarrow> jsarray" where
  "array_set a i v =
     (if is_array_index i then
        (if nat i < length (elems a) then a\<lparr>elems := (elems a)[nat i := v]\<rparr>
         else a\<lparr>elems := elems a @ replicate (nat i - length (elems a)) Absent @ [v]\<rparr>)
      else a\<lparr>props := put_prop i v (props a)\<rparr>)"

text \<open>\<open>squares.slice()\<close>: a new array with the same elements (holes stay holes) and no other property.\<close>

definition array_slice :: "jsarray \<Rightarrow> jsarray" where
  "array_slice a = plain (elems a)"

text \<open>\<open>squares.every(Boolean)\<close>: \<open>every\<close> visits the array indices and skips holes.\<close>

definition every_Boolean :: "cell list \<Rightarrow> bool" where
  "every_Boolean xs = list_all (\<lambda>c. c = Absent \<or> truthy c) xs"

text \<open>\<open>xs.slice(0, e)\<close>: a negative end counts from the end of the array.\<close>

definition slice_to :: "'a list \<Rightarrow> int \<Rightarrow> 'a list" where
  "slice_to xs e = take (nat (if e < 0 then int (length xs) + e else e)) xs"

text \<open>String concatenation with a cell value (\<open>'Winner: ' + winner.player\<close>).\<close>

fun cell_str :: "cell \<Rightarrow> string" where
  "cell_str Absent = ''undefined''"
| "cell_str Null = ''null''"
| "cell_str MarkX = ''X''"
| "cell_str MarkO = ''O''"

subsection \<open>JavaScript numbers\<close>

text \<open>
  Indices and the pointer are numbers with an integral value. The arithmetic below is
  that of the integers, which is what JavaScript computes as long as the values are
  integers it holds exactly (absolute value at most 9007199254740991).
\<close>

text \<open>\<open>a % b\<close> for a positive \<open>b\<close>: the remainder has the sign of the dividend.\<close>

definition js_rem :: "int \<Rightarrow> int \<Rightarrow> int" where
  "js_rem a b = (if a < 0 then - ((- a) mod b) else a mod b)"

text \<open>An integer inside a template literal: its decimal digits, after a minus sign if negative.\<close>

definition digit :: "int \<Rightarrow> char" where
  "digit d = ''0123456789'' ! nat d"

function decimal :: "int \<Rightarrow> string" where
  "decimal n = (if n < 10 then [digit n] else decimal (n div 10) @ [digit (n mod 10)])"
  by pat_completeness auto
termination
  by (relation "measure nat") auto

declare decimal.simps [simp del]

definition string_of_int :: "int \<Rightarrow> string" where
  "string_of_int i = (if i < 0 then CHR ''-'' # decimal (- i) else decimal i)"

subsection \<open>calculateWinner\<close>

record winner =
  player :: cell
  line :: "nat list"

definition lines :: "(nat \<times> nat \<times> nat) list" where
  "lines =
     [(0, 1, 2),
      (3, 4, 5),
      (6, 7, 8),
      (0, 3, 6),
      (1, 4, 7),
      (2, 5, 8),
      (0, 4, 8),
      (2, 4, 6)]"

text \<open>
  The \<open>for\<close> loop over \<open>lines\<close>, as a recursion over the lines not yet visited. It
  reads the keys 0 to 8 only, which are array indices, so it is given the elements of the
  array.
\<close>

fun calculateWinner_loop :: "cell list \<Rightarrow> (nat \<times> nat \<times> nat) list \<Rightarrow> winner option" where
  "calculateWinner_loop squares [] = None"
| "calculateWinner_loop squares ((a, b, c) # rest) =
     (if truthy (js_get squares a) \<and> js_get squares a = js_get squares b
         \<and> js_get squares a = js_get squares c
      then Some \<lparr>player = js_get squares a, line = [a, b, c]\<rparr>
      else calculateWinner_loop squares rest)"

definition calculateWinner :: "cell list \<Rightarrow> winner option" where
  "calculateWinner squares = calculateWinner_loop squares lines"

subsection \<open>The Game component: state and handlers\<close>

text \<open>The three \<open>useState\<close> cells of \<open>Game\<close>.\<close>

record entry =
  squares :: jsarray
  location :: string

record game =
  history :: "entry list"
  currentMove :: int
  isAscending :: bool

definition initial_game :: game where
  "initial_game =
     \<lparr>history = [\<lparr>squares = plain (replicate 9 Null), location = []\<rparr>],
      currentMove = 0,
      isAscending = True\<rparr>"

datatype error = TypeError

definition xIsNext :: "game \<Rightarrow> bool" where
  "xIsNext g = (js_rem (currentMove g) 2 = 0)"

text \<open>
  \<open>history[currentMove].squares\<close>: when \<open>currentMove\<close> is not an index of
  \<open>history\<close>, the element is \<open>undefined\<close> and reading its property throws.
\<close>

definition currentSquares :: "game \<Rightarrow> error + jsarray" where
  "currentSquares g =
     (if 0 \<le> currentMove g \<and> currentMove g < int (length (history g))
      then Inr (squares (history g ! nat (currentMove g)))
      else Inl TypeError)"

definition handlePlay :: "game \<Rightarrow> jsarray \<Rightarrow> string \<Rightarrow> game" where
  "handlePlay g nextSquares moveLocation =
     (let nextHistory =
            slice_to (history g) (currentMove g + 1)
              @ [\<lparr>squares = nextSquares, location = moveLocation\<rparr>]
      in g\<lparr>history := nextHistory, currentMove := int (length nextHistory) - 1\<rparr>)"

definition jumpTo :: "game \<Rightarrow> int \<Rightarrow> game" where
  "jumpTo g nextMove = g\<lparr>currentMove := nextMove\<rparr>"

definition toggleSortOrder :: "game \<Rightarrow> game" where
  "toggleSortOrder g = g\<lparr>isAscending := \<not> isAscending g\<rparr>"

subsection \<open>The Board component\<close>

text \<open>
  \<open>handleClick\<close> either returns early (\<open>None\<close>) or calls \<open>onPlay\<close> once; the result
  is the pair of arguments of that call. \<open>Math.floor(i / 3)\<close> is the integer quotient
  rounded down.
\<close>

definition handleClick :: "bool \<Rightarrow> jsarray \<Rightarrow> int \<Rightarrow> (jsarray \<times> string) option" where
  "handleClick xnext sq i =
     (if calculateWinner (elems sq) \<noteq> None \<or> truthy (array_get sq i) then None
      else
        let nextSquares = array_slice sq;
            row = i div 3 + 1;
            col = js_rem i 3 + 1;
            nextSquares = array_set nextSquares i (if xnext then MarkX else MarkO)
        in Some (nextSquares, ''('' @ string_of_int col @ '', '' @ string_of_int row @ '')''))"

definition status :: "bool \<Rightarrow> jsarray \<Rightarrow> string" where
  "status xnext sq =
     (case calculateWinner (elems sq) of
        Some w \<Rightarrow> ''Winner: '' @ cell_str (player w)
      | None \<Rightarrow>
          if every_Boolean (elems sq) then ''Draw''
          else ''Next player: '' @ (if xnext then ''X'' else ''O''))"

definition winningSquares :: "jsarray \<Rightarrow> nat list" where
  "winningSquares sq = (case calculateWinner (elems sq) of Some w \<Rightarrow> line w | None \<Rightarrow> [])"

subsection \<open>The move list\<close>

record move_item =
  key :: nat
  bold :: bool
  description :: string

definition moves :: "game \<Rightarrow> move_item list" where
  "moves g =
     map (\<lambda>(move, step).
            \<lparr>key = move,
             bold = (int move = currentMove g),
             description =
               (if move \<noteq> 0
                then ''Go to move #'' @ string_of_int (int move) @ '' ('' @ location step @ '')''
                else ''Go to game start'')\<rparr>)
         (enumerate 0 (history g))"

definition displayed_moves :: "game \<Rightarrow> move_item list" where
  "displayed_moves g = (if isAscending g then moves g else rev (moves g))"

subsection \<open>What a render shows\<close>

text \<open>
  \<open>Game\<close> reads \<open>currentSquares\<close> and hands it to \<open>Board\<close> together with
  \<open>xIsNext\<close>; \<open>Board\<close> computes the status line and the squares to highlight.
\<close>

definition render :: "game \<Rightarrow> error + string \<times> nat list" where
  "render g =
     (case currentSquares g of
        Inl e \<Rightarrow> Inl e
      | Inr sq \<Rightarrow> Inr (status (xIsNext g) sq, winningSquares sq))"

subsection \<open>User events\<close>

text \<open>
  A click on square \<open>i\<close>: \<open>Board\<close> was rendered with \<open>xIsNext\<close> and
  \<open>currentSquares\<close> as its props and \<open>handlePlay\<close> as \<open>onPlay\<close>. A state whose render
  throws has no board to click on.
\<close>

definition play :: "game \<Rightarrow> int \<Rightarrow> error + game" where
  "play g i =
     (case currentSquares g of
        Inl e \<Rightarrow> Inl e
      | Inr sq \<Rightarrow>
          (case handleClick (xIsNext g) sq i of
             None \<Rightarrow> Inr g
           | Some (nextSquares, moveLocation) \<Rightarrow> Inr (handlePlay g nextSquares moveLocation)))"

datatype event = Play int | JumpTo int | ToggleSort

text \<open>One event, its handler, and the render that follows the state update.\<close>

definition dispatch :: "game \<Rightarrow> event \<Rightarrow> error + game" where
  "dispatch g ev =
     (case (case ev of
              Play i \<Rightarrow> play g i
            | JumpTo m \<Rightarrow> Inr (jumpTo g m)
            | ToggleSort \<Rightarrow> Inr (toggleSortOrder g)) of
        Inl e \<Rightarrow> Inl e
      | Inr g' \<Rightarrow> (case currentSquares g' of Inl e \<Rightarrow> Inl e | Inr _ \<Rightarrow> Inr g'))"

fun run :: "game \<Rightarrow> event list \<Rightarrow> error + game" where
  "run g [] = Inr g"
| "run g (ev # evs) = (case dispatch g ev of Inl e \<Rightarrow> Inl e | Inr g' \<Rightarrow> run g' evs)"

text \<open>
  The states the user interface can reach: it renders nine squares, indices 0 to 8, and
  one jump button for each index of \<open>history\<close>.
\<close>

inductive reachable :: "game \<Rightarrow> bool" where
  reach_init: "reachable initial_game"
| reach_play: "reachable g \<Longrightarrow> 0 \<le> i \<Longrightarrow> i < 9 \<Longrightarrow> play g i = Inr g' \<Longrightarrow> reachable g'"
| reach_jump: "reachable g \<Longrightarrow> 0 \<le> m \<Longrightarrow> m < int (length (history g)) \<Longrightarrow> reachable (jumpTo g m)"
| reach_toggle: "reachable g \<Longrightarrow> reachable (toggleSortOrder g)"

text \<open>An event the rendered page can produce: a click on one of the nine squares, or a button.\<close>

fun on_page :: "event \<Rightarrow> bool" where
  "on_page (Play i) = (0 \<le> i \<and> i < 9)"
| "on_page (JumpTo m) = True"
| "on_page ToggleSort = True"

text \<open>
  The state of a game that started at the initial state and received the given events
  (the initial state itself if a render threw on the way).
\<close>

definition state_after :: "event list \<Rightarrow> game" where
  "state_after evs = (case run initial_game evs of Inr g \<Rightarrow> g | Inl e \<Rightarrow> initial_game)"

subsection \<open>The same handlers over a store of array objects\<close>

text \<open>
  Arrays are objects. A history entry holds a reference to its board, \<open>slice\<close> creates
  a new object, and \<open>nextSquares[i] = ...\<close> writes into the object that \<open>nextSquares\<close>
  refers to. The store lists the array objects in the order of their creation; a
  reference is a position in the store. The definitions above work on the contents of
  the boards; the definitions of this subsection are the same handlers with the
  references written out.
\<close>

type_synonym ref = nat

record entry_st =
  squares_ref :: ref
  location_st :: string

record game_st =
  store :: "jsarray list"
  history_st :: "entry_st list"
  currentMove_st :: int
  isAscending_st :: bool

definition initial_game_st :: game_st where
  "initial_game_st =
     \<lparr>store = [plain (replicate 9 Null)],
      history_st = [\<lparr>squares_ref = 0, location_st = []\<rparr>],
      currentMove_st = 0,
      isAscending_st = True\<rparr>"

text \<open>A new object goes to the end of the store; its reference is its position.\<close>

definition alloc :: "jsarray list \<Rightarrow> jsarray \<Rightarrow> jsarray list \<times> ref" where
  "alloc s a = (s @ [a], length s)"

definition xIsNext_st :: "game_st \<Rightarrow> bool" where
  "xIsNext_st g = (js_rem (currentMove_st g) 2 = 0)"

definition currentSquares_st :: "game_st \<Rightarrow> error + ref" where
  "currentSquares_st g =
     (if 0 \<le> currentMove_st g \<and> currentMove_st g < int (length (history_st g))
      then Inr (squares_ref (history_st g ! nat (currentMove_st g)))
      else Inl TypeError)"

definition handlePlay_st :: "game_st \<Rightarrow> ref \<Rightarrow> string \<Rightarrow> game_st" where
  "handlePlay_st g nextSquares moveLocation =
     (let nextHistory =
            slice_to (history_st g) (currentMove_st g + 1)
              @ [\<lparr>squares_ref = nextSquares, location_st = moveLocation\<rparr>]
      in g\<lparr>history_st := nextHistory, currentMove_st := int (length nextHistory) - 1\<rparr>)"

definition jumpTo_st :: "game_st \<Rightarrow> int \<Rightarrow> game_st" where
  "jumpTo_st g nextMove = g\<lparr>currentMove_st := nextMove\<rparr>"

definition toggleSortOrder_st :: "game_st \<Rightarrow> game_st" where
  "toggleSortOrder_st g = g\<lparr>isAscending_st := \<not> isAscending_st g\<rparr>"

text \<open>
  \<open>handleClick\<close> on the board object \<open>sq\<close> of store \<open>s\<close>: an early return
  (\<open>None\<close>), or the store after the copy was made and written to, with the arguments
  of the call of \<open>onPlay\<close>.
\<close>

definition handleClick_st ::
    "bool \<Rightarrow> jsarray list \<Rightarrow> ref \<Rightarrow> int \<Rightarrow> (jsarray list \<times> ref \<times> string) option" where
  "handleClick_st xnext s sq i =
     (if calculateWinner (elems (s ! sq)) \<noteq> None \<or> truthy (array_get (s ! sq) i) then None
      else
        let (s1, nextSquares) = alloc s (array_slice (s ! sq));
            row = i div 3 + 1;
            col = js_rem i 3 + 1;
            s2 = s1[nextSquares := array_set (s1 ! nextSquares) i (if xnext then MarkX else MarkO)]
        in Some (s2, nextSquares, ''('' @ string_of_int col @ '', '' @ string_of_int row @ '')''))"

definition play_st :: "game_st \<Rightarrow> int \<Rightarrow> error + game_st" where
  "play_st g i =
     (case currentSquares_st g of
        Inl e \<Rightarrow> Inl e
      | Inr sq \<Rightarrow>
          (case handleClick_st (xIsNext_st g) (store g) sq i of
             None \<Rightarrow> Inr g
           | Some (s', nextSquares, moveLocation) \<Rightarrow>
               Inr (handlePlay_st (g\<lparr>store := s'\<rparr>) nextSquares moveLocation)))"

text \<open>The game state that a store state stands for: every reference replaced by the object it refers to.\<close>

definition contents :: "game_st \<Rightarrow> game" where
  "contents g =
     \<lparr>history =
        map (\<lambda>e. \<lparr>squares = store g ! squares_ref e, location = location_st e\<rparr>) (history_st g),
      currentMove = currentMove_st g,
      isAscending = isAscending_st g\<rparr>"

text \<open>Every reference held by the history refers to an object of the store.\<close>

definition refs_ok :: "game_st \<Rightarrow> bool" where
  "refs_ok g = (\<forall>e\<in>set (history_st g). squares_ref e < length (store g))"

subsection \<open>Vocabulary of the specification\<close>

text \<open>A cell is non-empty when it carries one of the two marks.\<close>

definition is_mark :: "cell \<Rightarrow> bool" where
  "is_mark c = (c = MarkX \<or> c = MarkO)"

text \<open>A triple wins on a board when its three cells are non-empty and equal.\<close>

fun triple_wins :: "cell list \<Rightarrow> nat \<times> nat \<times> nat \<Rightarrow> bool" where
  "triple_wins sq (a, b, c) =
     (is_mark (js_get sq a) \<and> js_get sq b = js_get sq a
      \<and> js_get sq c = js_get sq a)"

fun triple_result :: "cell list \<Rightarrow> nat \<times> nat \<times> nat \<Rightarrow> winner" where
  "triple_result sq (a, b, c) = \<lparr>player = js_get sq a, line = [a, b, c]\<rparr>"

text \<open>The board with mark \<open>m\<close> on the three cells of a triple and every other cell empty.\<close>

fun only_triple :: "nat \<times> nat \<times> nat \<Rightarrow> cell \<Rightarrow> cell list" where
  "only_triple (a, b, c) m = (replicate 9 Null)[a := m, b := m, c := m]"

text \<open>A board: nine cells, each empty or carrying a mark.\<close>

definition is_board :: "cell list \<Rightarrow> bool" where
  "is_board sq = (length sq = 9 \<and> (\<forall>c\<in>set sq. c = Null \<or> is_mark c))"

text \<open>A board is full when every cell carries a mark.\<close>

definition board_full :: "cell list \<Rightarrow> bool" where
  "board_full sq = (\<forall>c\<in>set sq. is_mark c)"

text \<open>The mark of the player to move at pointer \<open>p\<close>: mark-A (X) at an even pointer.\<close>

definition mark_for :: "int \<Rightarrow> cell" where
  "mark_for p = (if even p then MarkX else MarkO)"

text \<open>An integer that a JavaScript number holds exactly.\<close>

definition safe_integer :: "int \<Rightarrow> bool" where
  "safe_integer i = (\<bar>i\<bar> \<le> 9007199254740991)"

text \<open>
  Board \<open>b'\<close> is board \<open>b\<close> after the move made at pointer \<open>k\<close>: one empty cell
  received the mark of the player to move, nothing else changed.
\<close>

definition move_step :: "nat \<Rightarrow> jsarray \<Rightarrow> jsarray \<Rightarrow> bool" where
  "move_step k b b' =
     (\<exists>i\<in>{0..<9}. elems b ! i = Null \<and> b' = plain ((elems b)[i := mark_for (int k)]))"

definition initial_entry :: entry where
  "initial_entry = \<lparr>squares = plain (replicate 9 Null), location = []\<rparr>"

text \<open>
  A history starts at the empty board and every later snapshot is its predecessor
  after one move.
\<close>

definition history_ok :: "entry list \<Rightarrow> bool" where
  "history_ok h =
     (h \<noteq> [] \<and> h ! 0 = initial_entry
      \<and> (\<forall>k\<in>{0..<length h - 1}. move_step k (squares (h ! k)) (squares (h ! Suc k))))"

definition game_ok :: "game \<Rightarrow> bool" where
  "game_ok g =
     (history_ok (history g) \<and> 0 \<le> currentMove g \<and> currentMove g < int (length (history g)))"

section \<open>Properties\<close>

subsection \<open>The win evaluator\<close>

lemma truthy_is_mark: "truthy c = is_mark c"
  by (cases c) (simp_all add: is_mark_def)

lemma loop_first_match:
  "calculateWinner_loop sq ls =
     (case find (triple_wins sq) ls of
        None \<Rightarrow> None
      | Some t \<Rightarrow> Some (triple_result sq t))"
proof (induction ls)
  case Nil
  show ?case by simp
next
  case (Cons t ls)
  obtain a b c where t: "t = (a, b, c)"
    by (cases t) auto
  show ?case
    using Cons.IH by (auto simp: t truthy_is_mark)
qed

lemma length_lines: "length lines = 8"
  by (simp add: lines_def)

lemma loop_None_iff:
  "calculateWinner_loop sq ls = None \<longleftrightarrow> (\<forall>k<length ls. \<not> triple_wins sq (ls ! k))"
proof -
  have "calculateWinner_loop sq ls = None \<longleftrightarrow> find (triple_wins sq) ls = None"
    by (simp add: loop_first_match split: option.split)
  also have "\<dots> \<longleftrightarrow> (\<forall>t\<in>set ls. \<not> triple_wins sq t)"
    unfolding find_None_iff by blast
  also have "\<dots> \<longleftrightarrow> (\<forall>k<length ls. \<not> triple_wins sq (ls ! k))"
    by (simp only: all_set_conv_all_nth)
  finally show ?thesis .
qed

lemma loop_Some_first:
  assumes "k < length ls" and "triple_wins sq (ls ! k)"
    and "\<forall>j<k. \<not> triple_wins sq (ls ! j)"
  shows "calculateWinner_loop sq ls = Some (triple_result sq (ls ! k))"
proof -
  have "find (triple_wins sq) ls = Some (ls ! k)"
    using assms by (auto simp: find_Some_iff)
  then show ?thesis
    by (simp add: loop_first_match)
qed

lemma only_triple_MarkX:
  "k \<in> {0, 1, 2, 3, 4, 5, 6, 7} \<Longrightarrow>
   calculateWinner (only_triple (lines ! k) MarkX)
     = Some \<lparr>player = MarkX, line = (case lines ! k of (a, b, c) \<Rightarrow> [a, b, c])\<rparr>"
  apply (elim insertE emptyE)
  apply (simp_all only:)
  apply code_simp+
  done

lemma only_triple_MarkO:
  "k \<in> {0, 1, 2, 3, 4, 5, 6, 7} \<Longrightarrow>
   calculateWinner (only_triple (lines ! k) MarkO)
     = Some \<lparr>player = MarkO, line = (case lines ! k of (a, b, c) \<Rightarrow> [a, b, c])\<rparr>"
  apply (elim insertE emptyE)
  apply (simp_all only:)
  apply code_simp+
  done

lemma only_triple_winner:
  assumes "k < 8" and "m = MarkX \<or> m = MarkO"
  shows "calculateWinner (only_triple (lines ! k) m) = Some \<lparr>player = m, line = (case lines ! k of (a, b, c) \<Rightarrow> [a, b, c])\<rparr>"
proof -
  from assms(1) have k: "k \<in> {0, 1, 2, 3, 4, 5, 6, 7}"
    by (simp only: insert_iff empty_iff) arith
  from assms(2) show ?thesis
  proof
    assume "m = MarkX"
    with k show ?thesis by (simp only: only_triple_MarkX)
  next
    assume "m = MarkO"
    with k show ?thesis by (simp only: only_triple_MarkO)
  qed
qed

text \<open>
  C1. \<open>calculateWinner\<close> checks exactly the eight triples rows, columns, diagonals in
  that order. It returns no winner exactly when none of them has three equal non-empty
  cells; otherwise it returns the mark and the indices of the first triple in the
  enumeration order that has. A board carrying one mark on the three cells of any of the
  eight triples, and nothing else, yields that mark and that triple.
\<close>

theorem calculateWinner_first_triple:
  "lines = [(0, 1, 2), (3, 4, 5), (6, 7, 8), (0, 3, 6), (1, 4, 7), (2, 5, 8), (0, 4, 8), (2, 4, 6)]
   \<and> (calculateWinner sq = None \<longleftrightarrow> (\<forall>k<8. \<not> triple_wins sq (lines ! k)))
   \<and> (\<forall>k<8. triple_wins sq (lines ! k) \<and> (\<forall>j<k. \<not> triple_wins sq (lines ! j))
         \<longrightarrow> calculateWinner sq = Some (triple_result sq (lines ! k))
             \<and> is_mark (player (triple_result sq (lines ! k))))
   \<and> (\<forall>k<8. \<forall>m. is_mark m \<longrightarrow>
         calculateWinner (only_triple (lines ! k) m)
           = Some \<lparr>player = m, line = (case lines ! k of (a, b, c) \<Rightarrow> [a, b, c])\<rparr>)"
proof (intro conjI allI impI)
  show "lines = [(0, 1, 2), (3, 4, 5), (6, 7, 8), (0, 3, 6), (1, 4, 7), (2, 5, 8), (0, 4, 8), (2, 4, 6)]"
    by (simp add: lines_def)
next
  show "calculateWinner sq = None \<longleftrightarrow> (\<forall>k<8. \<not> triple_wins sq (lines ! k))"
    by (simp add: calculateWinner_def loop_None_iff length_lines)
next
  fix k
  assume "k < 8" and h: "triple_wins sq (lines ! k) \<and> (\<forall>j<k. \<not> triple_wins sq (lines ! j))"
  then show "calculateWinner sq = Some (triple_result sq (lines ! k))"
    unfolding calculateWinner_def
    by (intro loop_Some_first) (simp_all add: length_lines)
  from h show "is_mark (player (triple_result sq (lines ! k)))"
    by (cases "lines ! k") simp
next
  fix k m
  assume "k < (8::nat)" and "is_mark m"
  then show "calculateWinner (only_triple (lines ! k) m)
      = Some \<lparr>player = m, line = (case lines ! k of (a, b, c) \<Rightarrow> [a, b, c])\<rparr>"
    by (intro only_triple_winner) (simp_all add: is_mark_def)
qed

theorem calculateWinner_first_triple_witness:
  "3 < (8::nat)
   \<and> \<not> triple_wins [MarkX, MarkO, Null, MarkX, MarkO, Null, MarkX, Null, Null] (lines ! 0)
   \<and> \<not> triple_wins [MarkX, MarkO, Null, MarkX, MarkO, Null, MarkX, Null, Null] (lines ! 1)
   \<and> \<not> triple_wins [MarkX, MarkO, Null, MarkX, MarkO, Null, MarkX, Null, Null] (lines ! 2)
   \<and> triple_wins [MarkX, MarkO, Null, MarkX, MarkO, Null, MarkX, Null, Null] (lines ! 3)
   \<and> calculateWinner [MarkX, MarkO, Null, MarkX, MarkO, Null, MarkX, Null, Null]
       = Some \<lparr>player = MarkX, line = [0, 3, 6]\<rparr>
   \<and> is_mark MarkO
   \<and> calculateWinner (only_triple (lines ! 7) MarkO) = Some \<lparr>player = MarkO, line = [2, 4, 6]\<rparr>"
proof -
  let ?b = "[MarkX, MarkO, Null, MarkX, MarkO, Null, MarkX, Null, Null]"
  have n0: "\<not> triple_wins ?b (lines ! 0)" and n1: "\<not> triple_wins ?b (lines ! 1)"
    and n2: "\<not> triple_wins ?b (lines ! 2)" and w3: "triple_wins ?b (lines ! 3)"
    by (simp_all add: lines_def js_get_def is_mark_def)
  have first: "\<forall>j<3. \<not> triple_wins ?b (lines ! j)"
  proof (intro allI impI)
    fix j :: nat assume "j < 3"
    then have "j = 0 \<or> j = 1 \<or> j = 2" by arith
    then show "\<not> triple_wins ?b (lines ! j)" using n0 n1 n2 by auto
  qed
  have m: "is_mark MarkO" by (simp add: is_mark_def)
  have l3: "triple_result ?b (lines ! 3) = \<lparr>player = MarkX, line = [0, 3, 6]\<rparr>"
    by (simp add: lines_def js_get_def)
  have l7: "(case lines ! 7 of (a, b, c) \<Rightarrow> [a, b, c]) = [2, 4, 6]"
    by (simp add: lines_def)
  note T = calculateWinner_first_triple [of ?b]
  note T3 = T [THEN conjunct2, THEN conjunct2, THEN conjunct1, rule_format, of 3]
  note T7 = T [THEN conjunct2, THEN conjunct2, THEN conjunct2, rule_format, of 7 MarkO]
  have "calculateWinner ?b = Some (triple_result ?b (lines ! 3))"
    by (rule T3 [THEN conjunct1]) (use w3 first in simp_all)
  then have r3: "calculateWinner ?b = Some \<lparr>player = MarkX, line = [0, 3, 6]\<rparr>"
    by (simp only: l3)
  have "calculateWinner (only_triple (lines ! 7) MarkO)
      = Some \<lparr>player = MarkO, line = (case lines ! 7 of (a, b, c) \<Rightarrow> [a, b, c])\<rparr>"
    by (rule T7) (use m in simp_all)
  then have r7: "calculateWinner (only_triple (lines ! 7) MarkO) = Some \<lparr>player = MarkO, line = [2, 4, 6]\<rparr>"
    by (simp only: l7)
  from n0 n1 n2 w3 m r3 r7 show ?thesis by simp
qed

subsection \<open>Boards, histories and the reachable states\<close>

lemma js_get_in_range: "i < length sq \<Longrightarrow> js_get sq i = sq ! i"
  by (simp add: js_get_def)

lemma array_get_cell:
  assumes "0 \<le> i" and "i < 9" and "length (elems a) = 9"
  shows "array_get a i = elems a ! nat i"
proof -
  from assms have "nat i < length (elems a)" by linarith
  with assms(1,2) show ?thesis
    by (simp add: array_get_def is_array_index_def js_get_def)
qed

lemma array_set_cell:
  assumes "0 \<le> i" and "i < 9" and "length (elems a) = 9"
  shows "array_set (array_slice a) i v = plain ((elems a)[nat i := v])"
proof -
  from assms have "nat i < length (elems a)" by linarith
  with assms(1,2) show ?thesis
    by (simp add: array_set_def array_slice_def plain_def is_array_index_def)
qed

lemma is_mark_mark_for: "is_mark (mark_for p)"
  by (simp add: is_mark_def mark_for_def)

lemma js_rem_2_even: "js_rem p 2 = 0 \<longleftrightarrow> even p"
  unfolding js_rem_def by presburger

lemma xIsNext_mark_for: "(if xIsNext g then MarkX else MarkO) = mark_for (currentMove g)"
  by (simp add: xIsNext_def mark_for_def js_rem_2_even)

lemma currentSquares_pointer:
  "currentSquares g = Inr sq \<Longrightarrow> 0 \<le> currentMove g \<and> currentMove g < int (length (history g))"
  by (simp add: currentSquares_def split: if_splits)

lemma board_falsy_cell:
  assumes "is_board (elems a)" and "0 \<le> i" and "i < 9" and "\<not> truthy (array_get a i)"
  shows "elems a ! nat i = Null"
proof -
  from assms(1-3) have len: "length (elems a) = 9" and "nat i < length (elems a)"
    by (simp_all add: is_board_def)
  with assms(1) have "elems a ! nat i = Null \<or> is_mark (elems a ! nat i)"
    by (simp add: is_board_def)
  with assms(2-4) len show ?thesis
    by (auto simp: array_get_cell truthy_is_mark)
qed

lemma is_board_update:
  assumes "is_board sq" and "is_mark m"
  shows "is_board (sq[i := m])"
  using assms by (auto simp: is_board_def dest!: set_update_subset_insert [THEN subsetD])

lemma move_step_board:
  assumes "is_board (elems b)" and "move_step k b b'"
  shows "is_board (elems b') \<and> props b' = []"
  using assms by (auto simp: move_step_def plain_def is_board_update is_mark_mark_for)

lemma is_board_initial: "is_board (replicate 9 Null)"
  by (simp add: is_board_def)

lemma history_ok_board:
  assumes "history_ok h" and "k < length h"
  shows "is_board (elems (squares (h ! k))) \<and> props (squares (h ! k)) = []"
  using assms(2)
proof (induction k)
  case 0
  from assms(1) show ?case
    by (simp add: history_ok_def initial_entry_def plain_def is_board_initial)
next
  case (Suc k)
  then have "is_board (elems (squares (h ! k)))" by simp
  moreover from assms(1) Suc.prems have "move_step k (squares (h ! k)) (squares (h ! Suc k))"
    by (simp add: history_ok_def)
  ultimately show ?case by (rule move_step_board)
qed

lemma play_unfold:
  assumes "currentSquares g = Inr sq"
  shows "play g i =
     Inr (if calculateWinner (elems sq) \<noteq> None \<or> truthy (array_get sq i) then g
          else handlePlay g (array_set (array_slice sq) i (mark_for (currentMove g)))
                 (''('' @ string_of_int (js_rem i 3 + 1) @ '', '' @ string_of_int (i div 3 + 1) @ '')''))"
  using assms by (simp add: play_def handleClick_def Let_def xIsNext_mark_for)

lemma history_handlePlay:
  "0 \<le> currentMove g \<Longrightarrow>
   history (handlePlay g b l)
     = take (nat (currentMove g) + 1) (history g) @ [\<lparr>squares = b, location = l\<rparr>]"
  by (simp add: handlePlay_def Let_def slice_to_def nat_add_distrib)

lemma currentMove_handlePlay:
  assumes "0 \<le> currentMove g" and "currentMove g < int (length (history g))"
  shows "currentMove (handlePlay g b l) = currentMove g + 1"
proof -
  from assms have "nat (currentMove g + 1) \<le> length (history g)" by linarith
  with assms(1) show ?thesis
    by (simp add: handlePlay_def Let_def slice_to_def min_def)
qed

lemma isAscending_handlePlay: "isAscending (handlePlay g b l) = isAscending g"
  by (simp add: handlePlay_def Let_def)

lemma history_ok_extend:
  assumes ok: "history_ok h" and p: "p < length h"
    and step: "move_step p (squares (h ! p)) b"
  shows "history_ok (take (p + 1) h @ [\<lparr>squares = b, location = l\<rparr>])"
proof -
  let ?h = "take (p + 1) h @ [\<lparr>squares = b, location = l\<rparr>]"
  have len: "length ?h = p + 2" using p by simp
  have keep: "?h ! k = h ! k" if "k \<le> p" for k
    using that p by (simp add: nth_append)
  have new: "?h ! Suc p = \<lparr>squares = b, location = l\<rparr>"
    using p by (simp add: nth_append)
  have "move_step k (squares (?h ! k)) (squares (?h ! Suc k))" if "k < p + 1" for k
  proof (cases "k = p")
    case True
    with step keep [of p] new show ?thesis by simp
  next
    case False
    with that have "Suc k \<le> p" by simp
    then have "?h ! k = h ! k" and "?h ! Suc k = h ! Suc k"
      using keep by simp_all
    moreover from ok \<open>Suc k \<le> p\<close> p have "move_step k (squares (h ! k)) (squares (h ! Suc k))"
      by (simp add: history_ok_def)
    ultimately show ?thesis by simp
  qed
  moreover from ok keep [of 0] have "?h ! 0 = initial_entry"
    by (simp add: history_ok_def)
  ultimately show ?thesis
    using len by (simp add: history_ok_def)
qed

lemma play_move_step:
  assumes "is_board (elems a)" and "0 \<le> i" and "i < 9" and "\<not> truthy (array_get a i)"
    and "0 \<le> p"
  shows "move_step (nat p) a (array_set (array_slice a) i (mark_for p))"
proof -
  from assms(1-4) have "elems a ! nat i = Null" by (rule board_falsy_cell)
  moreover from assms(1-3) have "array_set (array_slice a) i (mark_for p) = plain ((elems a)[nat i := mark_for p])"
    by (simp add: array_set_cell is_board_def)
  moreover from assms(2,3) have "nat i \<in> {0..<9}" by simp
  ultimately show ?thesis
    using assms(5) unfolding move_step_def by (intro bexI [of _ "nat i"]) simp_all
qed

lemma game_ok_currentSquares:
  "game_ok g \<Longrightarrow> currentSquares g = Inr (squares (history g ! nat (currentMove g)))"
  by (simp add: game_ok_def currentSquares_def)

lemma game_ok_board:
  assumes "game_ok g" and "currentSquares g = Inr sq"
  shows "is_board (elems sq) \<and> props sq = []"
proof -
  from assms have sq: "sq = squares (history g ! nat (currentMove g))"
    by (simp add: game_ok_currentSquares)
  from assms(1) have "history_ok (history g)" and "nat (currentMove g) < length (history g)"
    by (simp_all add: game_ok_def nat_less_iff)
  then show ?thesis unfolding sq by (rule history_ok_board)
qed

lemma game_ok_play:
  assumes ok: "game_ok g" and i: "0 \<le> i" "i < 9" and play: "play g i = Inr g'"
  shows "game_ok g'"
proof -
  let ?sq = "squares (history g ! nat (currentMove g))"
  let ?loc = "''('' @ string_of_int (js_rem i 3 + 1) @ '', '' @ string_of_int (i div 3 + 1) @ '')''"
  let ?b = "array_set (array_slice ?sq) i (mark_for (currentMove g))"
  from ok have cur: "currentSquares g = Inr ?sq" by (rule game_ok_currentSquares)
  from ok have hk: "history_ok (history g)" and p0: "0 \<le> currentMove g"
    and p: "currentMove g < int (length (history g))"
    by (simp_all add: game_ok_def)
  from p0 p have pn: "nat (currentMove g) < length (history g)" by simp
  from ok cur have board: "is_board (elems ?sq)" by (simp add: game_ok_board)
  show ?thesis
  proof (cases "calculateWinner (elems ?sq) \<noteq> None \<or> truthy (array_get ?sq i)")
    case True
    with play cur ok show ?thesis by (simp add: play_unfold)
  next
    case False
    then have "move_step (nat (currentMove g)) ?sq ?b"
      using board i p0 by (intro play_move_step) simp_all
    with hk pn have "history_ok (take (nat (currentMove g) + 1) (history g)
        @ [\<lparr>squares = ?b, location = ?loc\<rparr>])"
      by (rule history_ok_extend)
    moreover from False play cur have "g' = handlePlay g ?b ?loc"
      by (simp add: play_unfold)
    ultimately show ?thesis
      using p0 p by (simp add: game_ok_def history_handlePlay currentMove_handlePlay)
  qed
qed

lemma reachable_game_ok: "reachable g \<Longrightarrow> game_ok g"
proof (induction rule: reachable.induct)
  case reach_init
  show ?case
    by (simp add: game_ok_def history_ok_def initial_game_def initial_entry_def)
next
  case (reach_play g i g')
  then show ?case by (auto intro: game_ok_play)
next
  case (reach_jump g m)
  then show ?case by (simp add: game_ok_def jumpTo_def)
next
  case (reach_toggle g)
  then show ?case by (simp add: game_ok_def toggleSortOrder_def)
qed

subsection \<open>Event sequences stay within the reachable states\<close>

lemma dispatch_reachable:
  assumes "reachable g" and "on_page ev" and "dispatch g ev = Inr g'"
  shows "reachable g'"
proof (cases ev)
  case (Play i)
  with assms show ?thesis
    by (auto simp: dispatch_def split: sum.splits intro: reach_play)
next
  case (JumpTo m)
  with assms(3) have g': "g' = jumpTo g m" and "currentSquares (jumpTo g m) \<noteq> Inl TypeError"
    by (auto simp: dispatch_def split: sum.splits)
  then have "0 \<le> m \<and> m < int (length (history g))"
    by (auto simp: currentSquares_def jumpTo_def split: if_splits)
  with assms(1) g' show ?thesis
    by (simp add: reach_jump)
next
  case ToggleSort
  with assms show ?thesis
    by (auto simp: dispatch_def split: sum.splits intro: reach_toggle)
qed

lemma run_reachable:
  "reachable g \<Longrightarrow> list_all on_page evs \<Longrightarrow> run g evs = Inr g' \<Longrightarrow> reachable g'"
proof (induction evs arbitrary: g)
  case Nil
  then show ?case by simp
next
  case (Cons ev evs)
  from Cons.prems(3) obtain g1 where d: "dispatch g ev = Inr g1" and r: "run g1 evs = Inr g'"
    by (auto split: sum.splits)
  from Cons.prems(1,2) d have "reachable g1"
    by (auto intro: dispatch_reachable)
  with Cons.IH Cons.prems(2) r show ?case by simp
qed

lemma state_after_reachable:
  assumes "list_all on_page evs" and "run initial_game evs = Inr g"
  shows "reachable (state_after evs)"
proof -
  from assms(2) have "state_after evs = g"
    by (simp add: state_after_def)
  with run_reachable [OF reach_init assms] show ?thesis by simp
qed

subsection \<open>Refused plays\<close>

lemma board_full_cell: "board_full sq \<Longrightarrow> i < length sq \<Longrightarrow> is_mark (sq ! i)"
  by (simp add: board_full_def)

text \<open>
  C2. A click on a square changes nothing (history, pointer and sort flag stay as they
  are) when the current board already has a winner, or is full, or the clicked cell is
  occupied. The state is any state whose current board is a nine-cell board, and the
  index is a cell index 0..8.
\<close>

theorem play_refused_unchanged:
  assumes "currentSquares g = Inr sq" and "is_board (elems sq)" and "0 \<le> i" and "i < 9"
    and "calculateWinner (elems sq) \<noteq> None \<or> board_full (elems sq) \<or> is_mark (elems sq ! nat i)"
  shows "play g i = Inr g"
proof -
  from assms(2) have len: "length (elems sq) = 9"
    by (simp add: is_board_def)
  with assms(3,4) have n: "nat i < length (elems sq)" by linarith
  from assms(3,4) len have get: "array_get sq i = elems sq ! nat i"
    by (rule array_get_cell)
  from assms(5) have "calculateWinner (elems sq) \<noteq> None \<or> truthy (array_get sq i)"
    using n by (auto simp: get truthy_is_mark board_full_cell)
  with assms(1) show ?thesis
    by (simp add: play_unfold)
qed

theorem play_refused_unchanged_witness:
  "currentSquares (state_after [Play 0, Play 1, Play 3, Play 4, Play 6])
     = Inr (plain [MarkX, MarkO, Null, MarkX, MarkO, Null, MarkX, Null, Null])
   \<and> calculateWinner [MarkX, MarkO, Null, MarkX, MarkO, Null, MarkX, Null, Null] \<noteq> None
   \<and> play (state_after [Play 0, Play 1, Play 3, Play 4, Play 6]) 2
       = Inr (state_after [Play 0, Play 1, Play 3, Play 4, Play 6])
   \<and> currentSquares (state_after [Play 0, Play 1, Play 2, Play 4, Play 3, Play 5, Play 7, Play 6, Play 8])
       = Inr (plain [MarkX, MarkO, MarkX, MarkX, MarkO, MarkO, MarkO, MarkX, MarkX])
   \<and> board_full [MarkX, MarkO, MarkX, MarkX, MarkO, MarkO, MarkO, MarkX, MarkX]
   \<and> calculateWinner [MarkX, MarkO, MarkX, MarkX, MarkO, MarkO, MarkO, MarkX, MarkX] = None
   \<and> play (state_after [Play 0, Play 1, Play 2, Play 4, Play 3, Play 5, Play 7, Play 6, Play 8]) 5
       = Inr (state_after [Play 0, Play 1, Play 2, Play 4, Play 3, Play 5, Play 7, Play 6, Play 8])
   \<and> currentSquares (state_after [Play 4])
       = Inr (plain [Null, Null, Null, Null, MarkX, Null, Null, Null, Null])
   \<and> is_mark ([Null, Null, Null, Null, MarkX, Null, Null, Null, Null] ! 4)
   \<and> play (state_after [Play 4]) 4 = Inr (state_after [Play 4])"
proof -
  let ?won = "state_after [Play 0, Play 1, Play 3, Play 4, Play 6]"
  let ?wb = "[MarkX, MarkO, Null, MarkX, MarkO, Null, MarkX, Null, Null]"
  let ?drawn = "state_after [Play 0, Play 1, Play 2, Play 4, Play 3, Play 5, Play 7, Play 6, Play 8]"
  let ?db = "[MarkX, MarkO, MarkX, MarkX, MarkO, MarkO, MarkO, MarkX, MarkX]"
  let ?one = "state_after [Play 4]"
  let ?ob = "[Null, Null, Null, Null, MarkX, Null, Null, Null, Null]"
  have e: "elems (plain xs) = xs" for xs by (simp add: plain_def)
  have w1: "currentSquares ?won = Inr (plain ?wb)" by code_simp
  have w2: "is_board (elems (plain ?wb))" by code_simp
  have w3: "calculateWinner ?wb \<noteq> None" by code_simp
  have d1: "currentSquares ?drawn = Inr (plain ?db)" by code_simp
  have d2: "is_board (elems (plain ?db))" by code_simp
  have d3: "board_full ?db" by code_simp
  have d4: "calculateWinner ?db = None" by code_simp
  have o1: "currentSquares ?one = Inr (plain ?ob)" by code_simp
  have o2: "is_board (elems (plain ?ob))" by code_simp
  have o3: "is_mark (?ob ! 4)" by code_simp
  have "play ?won 2 = Inr ?won"
    by (rule play_refused_unchanged [OF w1 w2]) (use w3 in \<open>simp_all add: e\<close>)
  moreover have "play ?drawn 5 = Inr ?drawn"
    by (rule play_refused_unchanged [OF d1 d2]) (use d3 in \<open>simp_all add: e\<close>)
  moreover have "play ?one 4 = Inr ?one"
    by (rule play_refused_unchanged [OF o1 o2]) (use o3 in \<open>simp_all add: e\<close>)
  ultimately show ?thesis
    using w1 w3 d1 d3 d4 o1 o3 by (simp only: simp_thms)
qed

subsection \<open>Indices out of range\<close>

lemma js_get_extended:
  assumes "length xs \<le> k"
  shows "js_get (xs @ replicate (k - length xs) Absent @ [v]) j = (if j = k then v else js_get xs j)"
proof -
  let ?ys = "xs @ replicate (k - length xs) Absent @ [v]"
  have len: "length ?ys = Suc k" using assms by simp
  consider "j < length xs" | "length xs \<le> j" "j < k" | "j = k" | "k < j" by linarith
  then show ?thesis
  proof cases
    case 1
    with assms show ?thesis by (simp add: js_get_def nth_append)
  next
    case 2
    then have "j - length xs < k - length xs" by linarith
    with 2 have "?ys ! j = Absent"
      by (simp add: nth_append)
    with 2 len show ?thesis by (simp add: js_get_def)
  next
    case 3
    then have "?ys ! j = v"
      using assms by (simp add: nth_append)
    with 3 len show ?thesis by (simp add: js_get_def)
  next
    case 4
    with assms len show ?thesis by (simp add: js_get_def)
  qed
qed

lemma js_get_update:
  "k < length xs \<Longrightarrow> js_get (xs[k := v]) j = (if j = k then v else js_get xs j)"
  by (simp add: js_get_def)

lemma elems_array_set_slice:
  "elems (array_set (array_slice a) i v) =
     (if is_array_index i then
        (if nat i < length (elems a) then (elems a)[nat i := v]
         else elems a @ replicate (nat i - length (elems a)) Absent @ [v])
      else elems a)"
  by (simp add: array_set_def array_slice_def plain_def)

lemma props_array_set_slice:
  "props (array_set (array_slice a) i v) = (if is_array_index i then [] else [(i, v)])"
  by (simp add: array_set_def array_slice_def plain_def)

lemma array_get_set_slice_same: "array_get (array_set (array_slice a) i v) i = v"
proof (cases "is_array_index i")
  case True
  then show ?thesis
    by (simp add: array_get_def elems_array_set_slice js_get_update js_get_extended)
next
  case False
  then show ?thesis
    by (simp add: array_get_def props_array_set_slice)
qed

lemma array_get_set_slice_other:
  assumes "is_array_index j" and "j \<noteq> i"
  shows "array_get (array_set (array_slice a) i v) j = array_get a j"
proof (cases "is_array_index i")
  case True
  with assms have "nat j \<noteq> nat i"
    unfolding is_array_index_def by linarith
  with True assms(1) show ?thesis
    by (simp add: array_get_def elems_array_set_slice js_get_update js_get_extended)
next
  case False
  with assms(1) show ?thesis
    by (simp add: array_get_def elems_array_set_slice)
qed

lemma length_array_set_slice:
  "length (elems (array_set (array_slice a) i v)) =
     (if is_array_index i then max (length (elems a)) (nat i + 1) else length (elems a))"
  by (simp add: elems_array_set_slice)

lemma array_get_outside_board:
  assumes "length (elems a) = 9" and "props a = []" and "i < 0 \<or> 8 < i"
  shows "array_get a i = Absent"
proof (cases "is_array_index i")
  case True
  with assms(3) have "9 \<le> nat i" by (simp add: is_array_index_def)
  with True assms(1) show ?thesis by (simp add: array_get_def js_get_def)
next
  case False
  with assms(2) show ?thesis by (simp add: array_get_def)
qed

lemma handlePlay_record:
  assumes "0 \<le> currentMove g" and "currentMove g < int (length (history g))"
  shows "handlePlay g b l =
      \<lparr>history = take (nat (currentMove g) + 1) (history g) @ [\<lparr>squares = b, location = l\<rparr>],
       currentMove = currentMove g + 1, isAscending = isAscending g\<rparr>"
proof -
  have "handlePlay g b l = \<lparr>history = history (handlePlay g b l),
      currentMove = currentMove (handlePlay g b l), isAscending = isAscending (handlePlay g b l)\<rparr>"
    by simp
  with assms show ?thesis
    by (simp only: history_handlePlay currentMove_handlePlay isAscending_handlePlay)
qed

lemma handlePlay_changes:
  assumes "0 \<le> currentMove g" and "currentMove g < int (length (history g))"
  shows "handlePlay g b l \<noteq> g"
proof
  assume "handlePlay g b l = g"
  then have "currentMove (handlePlay g b l) = currentMove g" by simp
  with currentMove_handlePlay [OF assms] show False by simp
qed

text \<open>
  Neither handler checks its index. A click with cell index 9 on the initial state is not
  ignored: index 9 reads \<open>undefined\<close>, which is falsy, so the array copy is extended
  and a second history entry is appended. A jump to history index 1 of a one-entry
  history stores pointer 1, and the next render cannot read the current board.
\<close>

theorem out_of_range_counterexample:
  "play initial_game 9
     = Inr \<lparr>history =
              [\<lparr>squares = plain [Null, Null, Null, Null, Null, Null, Null, Null, Null], location = []\<rparr>,
               \<lparr>squares = plain [Null, Null, Null, Null, Null, Null, Null, Null, Null, MarkX],
                location = ''(1, 4)''\<rparr>],
            currentMove = 1, isAscending = True\<rparr>
   \<and> play initial_game 9 \<noteq> Inr initial_game
   \<and> jumpTo initial_game 1
       = \<lparr>history =
            [\<lparr>squares = plain [Null, Null, Null, Null, Null, Null, Null, Null, Null], location = []\<rparr>],
          currentMove = 1, isAscending = True\<rparr>
   \<and> jumpTo initial_game 1 \<noteq> initial_game
   \<and> currentSquares (jumpTo initial_game 1) = Inl TypeError"
  by code_simp

text \<open>
  C3, as the code has it. Neither handler validates its index. Take any state whose
  current board can be read, and any integer cell index \<open>i\<close> outside 0..8. The play is a
  no-op exactly when the current board has a winner or holds a truthy value under key
  \<open>i\<close>; a nine-cell array without further properties holds nothing there. Otherwise the
  play goes through like a play on an empty cell: the history is cut after the pointer
  and gets one new entry, the pointer advances by one and the sort flag is kept. The new
  board holds the mover's mark under key \<open>i\<close> and agrees with the current board at every
  other array index; when \<open>i\<close> is an array index past the end the array grows to length
  \<open>i + 1\<close>, and when \<open>i\<close> is not an array index (negative, or from 4294967295 on) the
  length is unchanged and the mark is an ordinary property. A jump to an integer \<open>m\<close>
  that is not an index of the history keeps history and sort flag but stores \<open>m\<close> as the
  pointer, after which reading the current board throws.
\<close>

theorem out_of_range_unvalidated:
  assumes "currentSquares g = Inr sq" and "safe_integer i" and "i < 0 \<or> 8 < i"
    and "m < 0 \<or> int (length (history g)) \<le> m"
  shows "(play g i = Inr g \<longleftrightarrow> calculateWinner (elems sq) \<noteq> None \<or> truthy (array_get sq i))
    \<and> (length (elems sq) = 9 \<and> props sq = [] \<longrightarrow> array_get sq i = Absent)
    \<and> (calculateWinner (elems sq) = None \<and> \<not> truthy (array_get sq i) \<longrightarrow>
         (\<exists>b. play g i =
                 Inr \<lparr>history =
                        take (nat (currentMove g) + 1) (history g)
                          @ [\<lparr>squares = b,
                              location = ''('' @ string_of_int (js_rem i 3 + 1) @ '', ''
                                           @ string_of_int (i div 3 + 1) @ '')''\<rparr>],
                      currentMove = currentMove g + 1,
                      isAscending = isAscending g\<rparr>
            \<and> array_get b i = mark_for (currentMove g)
            \<and> (\<forall>j. is_array_index j \<and> j \<noteq> i \<longrightarrow> array_get b j = array_get sq j)
            \<and> length (elems b)
                = (if is_array_index i then max (length (elems sq)) (nat i + 1)
                   else length (elems sq))
            \<and> props b = (if is_array_index i then [] else [(i, mark_for (currentMove g))])))
    \<and> jumpTo g m = \<lparr>history = history g, currentMove = m, isAscending = isAscending g\<rparr>
    \<and> jumpTo g m \<noteq> g
    \<and> currentSquares (jumpTo g m) = Inl TypeError"
proof -
  let ?loc = "''('' @ string_of_int (js_rem i 3 + 1) @ '', '' @ string_of_int (i div 3 + 1) @ '')''"
  let ?b = "array_set (array_slice sq) i (mark_for (currentMove g))"
  from assms(1) have p0: "0 \<le> currentMove g" and p: "currentMove g < int (length (history g))"
    by (simp_all add: currentSquares_pointer)
  note unfold = play_unfold [OF assms(1), of i]
  have noop: "play g i = Inr g \<longleftrightarrow> calculateWinner (elems sq) \<noteq> None \<or> truthy (array_get sq i)"
    using handlePlay_changes [OF p0 p, of ?b ?loc] by (simp add: unfold)
  have empty: "length (elems sq) = 9 \<and> props sq = [] \<longrightarrow> array_get sq i = Absent"
    using assms(3) by (simp add: array_get_outside_board)
  have through: "\<exists>b. play g i =
                 Inr \<lparr>history =
                        take (nat (currentMove g) + 1) (history g) @ [\<lparr>squares = b, location = ?loc\<rparr>],
                      currentMove = currentMove g + 1,
                      isAscending = isAscending g\<rparr>
            \<and> array_get b i = mark_for (currentMove g)
            \<and> (\<forall>j. is_array_index j \<and> j \<noteq> i \<longrightarrow> array_get b j = array_get sq j)
            \<and> length (elems b)
                = (if is_array_index i then max (length (elems sq)) (nat i + 1)
                   else length (elems sq))
            \<and> props b = (if is_array_index i then [] else [(i, mark_for (currentMove g))])"
    if h: "calculateWinner (elems sq) = None \<and> \<not> truthy (array_get sq i)"
  proof (intro exI [of _ ?b] conjI)
    from h have "play g i = Inr (handlePlay g ?b ?loc)"
      by (simp add: unfold)
    then show "play g i =
        Inr \<lparr>history =
               take (nat (currentMove g) + 1) (history g) @ [\<lparr>squares = ?b, location = ?loc\<rparr>],
             currentMove = currentMove g + 1,
             isAscending = isAscending g\<rparr>"
      by (simp only: handlePlay_record [OF p0 p])
    show "array_get ?b i = mark_for (currentMove g)"
      by (rule array_get_set_slice_same)
    show "\<forall>j. is_array_index j \<and> j \<noteq> i \<longrightarrow> array_get ?b j = array_get sq j"
      by (simp add: array_get_set_slice_other)
    show "length (elems ?b)
        = (if is_array_index i then max (length (elems sq)) (nat i + 1) else length (elems sq))"
      by (rule length_array_set_slice)
    show "props ?b = (if is_array_index i then [] else [(i, mark_for (currentMove g))])"
      by (rule props_array_set_slice)
  qed
  have j1: "jumpTo g m = \<lparr>history = history g, currentMove = m, isAscending = isAscending g\<rparr>"
    by (simp add: jumpTo_def)
  have j2: "jumpTo g m \<noteq> g"
  proof
    assume "jumpTo g m = g"
    then have "currentMove (jumpTo g m) = currentMove g" by simp
    with p0 p assms(4) show False by (simp add: jumpTo_def)
  qed
  have j3: "currentSquares (jumpTo g m) = Inl TypeError"
    using assms(4) by (auto simp: currentSquares_def jumpTo_def)
  from noop empty through j1 j2 j3 show ?thesis
    by blast
qed

theorem out_of_range_unvalidated_witness:
  "currentSquares (state_after [Play 0])
     = Inr (plain [MarkX, Null, Null, Null, Null, Null, Null, Null, Null])
   \<and> calculateWinner [MarkX, Null, Null, Null, Null, Null, Null, Null, Null] = None
   \<and> length (history (state_after [Play 0])) = 2
   \<and> safe_integer (- 1) \<and> safe_integer 11 \<and> safe_integer 4294967295
   \<and> play (state_after [Play 0]) (- 1)
       = Inr \<lparr>history =
                [\<lparr>squares = plain [Null, Null, Null, Null, Null, Null, Null, Null, Null], location = []\<rparr>,
                 \<lparr>squares = plain [MarkX, Null, Null, Null, Null, Null, Null, Null, Null],
                  location = ''(1, 1)''\<rparr>,
                 \<lparr>squares = \<lparr>elems = [MarkX, Null, Null, Null, Null, Null, Null, Null, Null],
                              props = [(- 1, MarkO)]\<rparr>,
                  location = ''(0, 0)''\<rparr>],
              currentMove = 2, isAscending = True\<rparr>
   \<and> play (state_after [Play 0]) 11
       = Inr \<lparr>history =
                [\<lparr>squares = plain [Null, Null, Null, Null, Null, Null, Null, Null, Null], location = []\<rparr>,
                 \<lparr>squares = plain [MarkX, Null, Null, Null, Null, Null, Null, Null, Null],
                  location = ''(1, 1)''\<rparr>,
                 \<lparr>squares = plain [MarkX, Null, Null, Null, Null, Null, Null, Null, Null,
                                   Absent, Absent, MarkO],
                  location = ''(3, 4)''\<rparr>],
              currentMove = 2, isAscending = True\<rparr>
   \<and> play (state_after [Play 0]) 4294967295
       = Inr \<lparr>history =
                [\<lparr>squares = plain [Null, Null, Null, Null, Null, Null, Null, Null, Null], location = []\<rparr>,
                 \<lparr>squares = plain [MarkX, Null, Null, Null, Null, Null, Null, Null, Null],
                  location = ''(1, 1)''\<rparr>,
                 \<lparr>squares = \<lparr>elems = [MarkX, Null, Null, Null, Null, Null, Null, Null, Null],
                              props = [(4294967295, MarkO)]\<rparr>,
                  location = ''(1, 1431655766)''\<rparr>],
              currentMove = 2, isAscending = True\<rparr>
   \<and> play (state_after [Play 0]) (- 1) \<noteq> Inr (state_after [Play 0])
   \<and> play (state_after [Play 0]) 11 \<noteq> Inr (state_after [Play 0])
   \<and> play (state_after [Play 0]) 4294967295 \<noteq> Inr (state_after [Play 0])
   \<and> truthy (array_get \<lparr>elems = [MarkX, Null, Null, Null, Null, Null, Null, Null, Null],
                          props = [(- 1, MarkO)]\<rparr> (- 1))
   \<and> currentSquares (state_after [Play 0, Play (- 1)])
       = Inr \<lparr>elems = [MarkX, Null, Null, Null, Null, Null, Null, Null, Null], props = [(- 1, MarkO)]\<rparr>
   \<and> play (state_after [Play 0, Play (- 1)]) (- 1) = Inr (state_after [Play 0, Play (- 1)])
   \<and> currentMove (jumpTo (state_after [Play 0]) (- 1)) = - 1
   \<and> currentSquares (jumpTo (state_after [Play 0]) (- 1)) = Inl TypeError
   \<and> currentMove (jumpTo (state_after [Play 0]) 2) = 2
   \<and> currentSquares (jumpTo (state_after [Play 0]) 2) = Inl TypeError"
proof -
  let ?g = "state_after [Play 0]"
  let ?b = "[MarkX, Null, Null, Null, Null, Null, Null, Null, Null]"
  let ?g2 = "state_after [Play 0, Play (- 1)]"
  let ?b2 = "\<lparr>elems = ?b, props = [(- 1, MarkO)]\<rparr>"
  have e: "elems (plain xs) = xs" for xs by (simp add: plain_def)
  have h1: "currentSquares ?g = Inr (plain ?b)" by code_simp
  have h2: "calculateWinner ?b = None" by code_simp
  have len: "length (history ?g) = 2" by code_simp
  have s1: "safe_integer (- 1)" and s2: "safe_integer 11" and s3: "safe_integer 4294967295"
    by (simp_all add: safe_integer_def)
  have m1: "(- 1 :: int) < 0 \<or> int (length (history ?g)) \<le> - 1" by simp
  have m2: "(2 :: int) < 0 \<or> int (length (history ?g)) \<le> 2" by (simp add: len)
  note A = out_of_range_unvalidated [OF h1 s1 _ m1]
  note B = out_of_range_unvalidated [OF h1 s2 _ m2]
  note C = out_of_range_unvalidated [OF h1 s3 _ m2]
  have f1: "\<not> truthy (array_get (plain ?b) (- 1))" by code_simp
  have f2: "\<not> truthy (array_get (plain ?b) 11)" by code_simp
  have f3: "\<not> truthy (array_get (plain ?b) 4294967295)" by code_simp
  have n1: "play ?g (- 1) \<noteq> Inr ?g"
    using A [THEN conjunct1] h2 f1 by (simp add: e)
  have n2: "play ?g 11 \<noteq> Inr ?g"
    using B [THEN conjunct1] h2 f2 by (simp add: e)
  have n3: "play ?g 4294967295 \<noteq> Inr ?g"
    using C [THEN conjunct1] h2 f3 by (simp add: e)
  have j1: "currentMove (jumpTo ?g (- 1)) = - 1"
    by (simp add: A [THEN conjunct2, THEN conjunct2, THEN conjunct2, THEN conjunct1])
  note j2 = A [THEN conjunct2, THEN conjunct2, THEN conjunct2, THEN conjunct2, THEN conjunct2, simplified]
  have j3: "currentMove (jumpTo ?g 2) = 2"
    by (simp add: B [THEN conjunct2, THEN conjunct2, THEN conjunct2, THEN conjunct1])
  note j4 = B [THEN conjunct2, THEN conjunct2, THEN conjunct2, THEN conjunct2, THEN conjunct2, simplified]
  have k1: "currentSquares ?g2 = Inr ?b2" by code_simp
  have k2: "truthy (array_get ?b2 (- 1))" by code_simp
  have m3: "(3 :: int) < 0 \<or> int (length (history ?g2)) \<le> 3" by code_simp
  have k3: "play ?g2 (- 1) = Inr ?g2"
    using out_of_range_unvalidated [OF k1 s1 _ m3, THEN conjunct1] k2 by simp
  have v1: "play ?g (- 1)
       = Inr \<lparr>history =
                [\<lparr>squares = plain [Null, Null, Null, Null, Null, Null, Null, Null, Null], location = []\<rparr>,
                 \<lparr>squares = plain ?b, location = ''(1, 1)''\<rparr>,
                 \<lparr>squares = ?b2, location = ''(0, 0)''\<rparr>],
              currentMove = 2, isAscending = True\<rparr>"
    by code_simp
  have v2: "play ?g 11
       = Inr \<lparr>history =
                [\<lparr>squares = plain [Null, Null, Null, Null, Null, Null, Null, Null, Null], location = []\<rparr>,
                 \<lparr>squares = plain ?b, location = ''(1, 1)''\<rparr>,
                 \<lparr>squares = plain [MarkX, Null, Null, Null, Null, Null, Null, Null, Null,
                                   Absent, Absent, MarkO],
                  location = ''(3, 4)''\<rparr>],
              currentMove = 2, isAscending = True\<rparr>"
    by code_simp
  have v3: "play ?g 4294967295
       = Inr \<lparr>history =
                [\<lparr>squares = plain [Null, Null, Null, Null, Null, Null, Null, Null, Null], location = []\<rparr>,
                 \<lparr>squares = plain ?b, location = ''(1, 1)''\<rparr>,
                 \<lparr>squares = \<lparr>elems = ?b, props = [(4294967295, MarkO)]\<rparr>,
                  location = ''(1, 1431655766)''\<rparr>],
              currentMove = 2, isAscending = True\<rparr>"
    by code_simp
  from h1 h2 len s1 s2 s3 v1 v2 v3 n1 n2 n3 k2 k1 k3 j1 j2 j3 j4 show ?thesis
    by (simp only: simp_thms)
qed

subsection \<open>A successful play\<close>

lemma reachable_history_start:
  assumes "reachable g"
  shows "history g \<noteq> [] \<and> history g ! 0 = initial_entry"
  using reachable_game_ok [OF assms] by (simp add: game_ok_def history_ok_def)

text \<open>
  C4. A play that is not refused (no winner on the current board, clicked cell falsy), made
  at pointer \<open>p\<close>, drops the history entries after index \<open>p\<close>, appends one entry
  made of the new board and its location, and sets the pointer to the new last index,
  \<open>p + 1\<close>; the entries up to \<open>p\<close> are kept. In every reachable state the history is
  non-empty and starts with the initial empty-board entry. After play(0), play(4),
  jumpTo(0) the history has three entries; play(4) then leaves two entries and pointer 1.
\<close>

theorem play_truncates_and_appends:
  "(currentSquares g = Inr sq \<and> calculateWinner (elems sq) = None \<and> \<not> truthy (array_get sq i) \<longrightarrow>
      (\<exists>g' e. play g i = Inr g'
         \<and> history g' = take (nat (currentMove g) + 1) (history g) @ [e]
         \<and> squares e = array_set (array_slice sq) i (mark_for (currentMove g))
         \<and> location e = ''('' @ string_of_int (js_rem i 3 + 1) @ '', '' @ string_of_int (i div 3 + 1) @ '')''
         \<and> int (length (history g')) = currentMove g + 2
         \<and> (\<forall>k\<le>nat (currentMove g). history g' ! k = history g ! k)
         \<and> currentMove g' = int (length (history g')) - 1
         \<and> isAscending g' = isAscending g))
   \<and> (reachable g \<longrightarrow> history g \<noteq> [] \<and> history g ! 0 = initial_entry)
   \<and> run initial_game [Play 0, Play 4, JumpTo 0]
       = Inr \<lparr>history =
                [\<lparr>squares = plain [Null, Null, Null, Null, Null, Null, Null, Null, Null], location = []\<rparr>,
                 \<lparr>squares = plain [MarkX, Null, Null, Null, Null, Null, Null, Null, Null],
                  location = ''(1, 1)''\<rparr>,
                 \<lparr>squares = plain [MarkX, Null, Null, Null, MarkO, Null, Null, Null, Null],
                  location = ''(2, 2)''\<rparr>],
              currentMove = 0, isAscending = True\<rparr>
   \<and> run initial_game [Play 0, Play 4, JumpTo 0, Play 4]
       = Inr \<lparr>history =
                [\<lparr>squares = plain [Null, Null, Null, Null, Null, Null, Null, Null, Null], location = []\<rparr>,
                 \<lparr>squares = plain [Null, Null, Null, Null, MarkX, Null, Null, Null, Null],
                  location = ''(2, 2)''\<rparr>],
              currentMove = 1, isAscending = True\<rparr>"
proof (intro conjI impI)
  assume h: "currentSquares g = Inr sq \<and> calculateWinner (elems sq) = None \<and> \<not> truthy (array_get sq i)"
  let ?e = "\<lparr>squares = array_set (array_slice sq) i (mark_for (currentMove g)),
             location = ''('' @ string_of_int (js_rem i 3 + 1) @ '', '' @ string_of_int (i div 3 + 1) @ '')''\<rparr>"
  let ?g' = "handlePlay g (squares ?e) (location ?e)"
  from h have p0: "0 \<le> currentMove g" and p: "currentMove g < int (length (history g))"
    by (simp_all add: currentSquares_pointer)
  from p0 p have pn: "nat (currentMove g) < length (history g)" by linarith
  from h have 1: "play g i = Inr ?g'"
    by (simp add: play_unfold)
  have 2: "history ?g' = take (nat (currentMove g) + 1) (history g) @ [?e]"
    using p0 by (simp add: history_handlePlay)
  have 3: "int (length (history ?g')) = currentMove g + 2"
    using p0 pn by (simp add: history_handlePlay)
  have 4: "\<forall>k\<le>nat (currentMove g). history ?g' ! k = history g ! k"
    using p0 pn by (simp add: history_handlePlay nth_append)
  have 5: "currentMove ?g' = int (length (history ?g')) - 1"
    using p0 p pn by (simp add: history_handlePlay currentMove_handlePlay)
  have 6: "isAscending ?g' = isAscending g"
    by (simp add: isAscending_handlePlay)
  have "play g i = Inr ?g'
         \<and> history ?g' = take (nat (currentMove g) + 1) (history g) @ [?e]
         \<and> squares ?e = array_set (array_slice sq) i (mark_for (currentMove g))
         \<and> location ?e = ''('' @ string_of_int (js_rem i 3 + 1) @ '', '' @ string_of_int (i div 3 + 1) @ '')''
         \<and> int (length (history ?g')) = currentMove g + 2
         \<and> (\<forall>k\<le>nat (currentMove g). history ?g' ! k = history g ! k)
         \<and> currentMove ?g' = int (length (history ?g')) - 1
         \<and> isAscending ?g' = isAscending g"
    using 1 2 3 4 5 6 by simp
  then show "\<exists>g' e. play g i = Inr g'
         \<and> history g' = take (nat (currentMove g) + 1) (history g) @ [e]
         \<and> squares e = array_set (array_slice sq) i (mark_for (currentMove g))
         \<and> location e = ''('' @ string_of_int (js_rem i 3 + 1) @ '', '' @ string_of_int (i div 3 + 1) @ '')''
         \<and> int (length (history g')) = currentMove g + 2
         \<and> (\<forall>k\<le>nat (currentMove g). history g' ! k = history g ! k)
         \<and> currentMove g' = int (length (history g')) - 1
         \<and> isAscending g' = isAscending g"
    by blast
next
  assume "reachable g"
  then show "history g \<noteq> []" and "history g ! 0 = initial_entry"
    by (simp_all add: reachable_history_start)
next
  show "run initial_game [Play 0, Play 4, JumpTo 0]
       = Inr \<lparr>history =
                [\<lparr>squares = plain [Null, Null, Null, Null, Null, Null, Null, Null, Null], location = []\<rparr>,
                 \<lparr>squares = plain [MarkX, Null, Null, Null, Null, Null, Null, Null, Null],
                  location = ''(1, 1)''\<rparr>,
                 \<lparr>squares = plain [MarkX, Null, Null, Null, MarkO, Null, Null, Null, Null],
                  location = ''(2, 2)''\<rparr>],
              currentMove = 0, isAscending = True\<rparr>"
    by code_simp
next
  show "run initial_game [Play 0, Play 4, JumpTo 0, Play 4]
       = Inr \<lparr>history =
                [\<lparr>squares = plain [Null, Null, Null, Null, Null, Null, Null, Null, Null], location = []\<rparr>,
                 \<lparr>squares = plain [Null, Null, Null, Null, MarkX, Null, Null, Null, Null],
                  location = ''(2, 2)''\<rparr>],
              currentMove = 1, isAscending = True\<rparr>"
    by code_simp
qed

theorem play_truncates_and_appends_witness:
  "currentSquares (state_after [Play 0, Play 4, JumpTo 0])
     = Inr (plain [Null, Null, Null, Null, Null, Null, Null, Null, Null])
   \<and> calculateWinner [Null, Null, Null, Null, Null, Null, Null, Null, Null] = None
   \<and> \<not> truthy (array_get (plain [Null, Null, Null, Null, Null, Null, Null, Null, Null]) 4)
   \<and> reachable (state_after [Play 0, Play 4, JumpTo 0])
   \<and> length (history (state_after [Play 0, Play 4, JumpTo 0])) = 3
   \<and> (\<exists>g'. play (state_after [Play 0, Play 4, JumpTo 0]) 4 = Inr g'
          \<and> length (history g') = 2 \<and> currentMove g' = 1
          \<and> history g' ! 0 = history (state_after [Play 0, Play 4, JumpTo 0]) ! 0)
   \<and> history (state_after [Play 0, Play 4, JumpTo 0]) \<noteq> []
   \<and> history (state_after [Play 0, Play 4, JumpTo 0]) ! 0 = initial_entry"
proof -
  let ?g = "state_after [Play 0, Play 4, JumpTo 0]"
  let ?b = "[Null, Null, Null, Null, Null, Null, Null, Null, Null]"
  note T = play_truncates_and_appends [of ?g "plain ?b" 4]
  have e: "elems (plain xs) = xs" for xs by (simp add: plain_def)
  have h1: "currentSquares ?g = Inr (plain ?b)" by code_simp
  have h2: "calculateWinner ?b = None" by code_simp
  have h3: "\<not> truthy (array_get (plain ?b) 4)" by code_simp
  have p: "currentMove ?g = 0" by code_simp
  have l: "length (history ?g) = 3" by code_simp
  have r: "reachable ?g"
    by (rule state_after_reachable [OF _ T [THEN conjunct2, THEN conjunct2, THEN conjunct1]]) simp
  from T [THEN conjunct1] h1 h2 h3 obtain g' where
    "play ?g 4 = Inr g'" and "int (length (history g')) = currentMove ?g + 2"
    and "\<forall>k\<le>nat (currentMove ?g). history g' ! k = history ?g ! k"
    and "currentMove g' = int (length (history g')) - 1"
    unfolding e by blast
  with p have e: "\<exists>g'. play ?g 4 = Inr g' \<and> length (history g') = 2 \<and> currentMove g' = 1
      \<and> history g' ! 0 = history ?g ! 0"
    by auto
  from T [THEN conjunct2, THEN conjunct1] r
  have s: "history ?g \<noteq> []" and i: "history ?g ! 0 = initial_entry"
    by simp_all
  from h1 h2 h3 r l e s i show ?thesis
    by (simp only: simp_thms)
qed

subsection \<open>The status line\<close>

lemma calculateWinner_Some_mark:
  assumes "calculateWinner sq = Some w"
  shows "is_mark (player w)"
proof -
  from assms obtain t where "find (triple_wins sq) lines = Some t" and w: "w = triple_result sq t"
    by (auto simp: calculateWinner_def loop_first_match split: option.splits)
  then have "triple_wins sq t"
    by (auto simp: find_Some_iff)
  with w show ?thesis
    by (cases t) simp
qed

lemma every_Boolean_full:
  "\<forall>c\<in>set sq. c = Null \<or> is_mark c \<Longrightarrow> every_Boolean sq = board_full sq"
  by (auto simp: every_Boolean_def board_full_def list_all_iff truthy_is_mark is_mark_def)

lemma board_full_every_Boolean: "board_full sq \<Longrightarrow> every_Boolean sq"
  by (auto simp: every_Boolean_def board_full_def list_all_iff truthy_is_mark)

text \<open>
  C5. The status shown for a state whose current board is \<open>sq\<close>: when the win
  evaluator finds a winner, "Winner: " followed by the winner's mark, and the squares to
  highlight are the winning triple; else "Draw" when the board is full; else, on a
  nine-cell board, "Next player: " followed by X at an even pointer and O at an odd one.
  After play(0), play(1), play(3), play(4), play(6) the status is "Winner: X" and the
  winning indices are 0, 3, 6.
\<close>

theorem status_derivation:
  "(currentSquares g = Inr sq \<longrightarrow>
      (\<exists>st. render g = Inr (st, winningSquares sq)
         \<and> (\<forall>w. calculateWinner (elems sq) = Some w \<longrightarrow>
                st = ''Winner: '' @ cell_str (player w) \<and> is_mark (player w)
                \<and> winningSquares sq = line w)
         \<and> (calculateWinner (elems sq) = None \<and> board_full (elems sq) \<longrightarrow> st = ''Draw'')
         \<and> (calculateWinner (elems sq) = None \<and> is_board (elems sq) \<and> \<not> board_full (elems sq) \<longrightarrow>
                st = ''Next player: '' @ (if even (currentMove g) then ''X'' else ''O''))))
   \<and> render (state_after [Play 0, Play 1, Play 3, Play 4, Play 6]) = Inr (''Winner: X'', [0, 3, 6])
   \<and> currentSquares (state_after [Play 0, Play 1, Play 3, Play 4, Play 6])
       = Inr (plain [MarkX, MarkO, Null, MarkX, MarkO, Null, MarkX, Null, Null])"
proof (intro conjI impI)
  assume cur: "currentSquares g = Inr sq"
  let ?st = "status (xIsNext g) sq"
  have r: "render g = Inr (?st, winningSquares sq)"
    using cur by (simp add: render_def)
  have w: "?st = ''Winner: '' @ cell_str (player w) \<and> is_mark (player w) \<and> winningSquares sq = line w"
    if "calculateWinner (elems sq) = Some w" for w
    using that by (simp add: status_def winningSquares_def calculateWinner_Some_mark)
  have d: "?st = ''Draw''" if "calculateWinner (elems sq) = None \<and> board_full (elems sq)"
    using that by (simp add: status_def board_full_every_Boolean)
  have n: "?st = ''Next player: '' @ (if even (currentMove g) then ''X'' else ''O'')"
    if "calculateWinner (elems sq) = None \<and> is_board (elems sq) \<and> \<not> board_full (elems sq)"
  proof -
    from that have "\<not> every_Boolean (elems sq)"
      by (simp add: every_Boolean_full is_board_def)
    with that show ?thesis
      by (simp add: status_def xIsNext_def js_rem_2_even)
  qed
  from r w d n show "\<exists>st. render g = Inr (st, winningSquares sq)
         \<and> (\<forall>w. calculateWinner (elems sq) = Some w \<longrightarrow>
                st = ''Winner: '' @ cell_str (player w) \<and> is_mark (player w)
                \<and> winningSquares sq = line w)
         \<and> (calculateWinner (elems sq) = None \<and> board_full (elems sq) \<longrightarrow> st = ''Draw'')
         \<and> (calculateWinner (elems sq) = None \<and> is_board (elems sq) \<and> \<not> board_full (elems sq) \<longrightarrow>
                st = ''Next player: '' @ (if even (currentMove g) then ''X'' else ''O''))"
    by blast
next
  show "render (state_after [Play 0, Play 1, Play 3, Play 4, Play 6]) = Inr (''Winner: X'', [0, 3, 6])"
    by code_simp
next
  show "currentSquares (state_after [Play 0, Play 1, Play 3, Play 4, Play 6])
       = Inr (plain [MarkX, MarkO, Null, MarkX, MarkO, Null, MarkX, Null, Null])"
    by code_simp
qed

theorem status_derivation_witness:
  "currentSquares (state_after [Play 0, Play 1, Play 3, Play 4, Play 6])
     = Inr (plain [MarkX, MarkO, Null, MarkX, MarkO, Null, MarkX, Null, Null])
   \<and> calculateWinner [MarkX, MarkO, Null, MarkX, MarkO, Null, MarkX, Null, Null]
       = Some \<lparr>player = MarkX, line = [0, 3, 6]\<rparr>
   \<and> render (state_after [Play 0, Play 1, Play 3, Play 4, Play 6]) = Inr (''Winner: X'', [0, 3, 6])
   \<and> currentSquares (state_after [Play 0, Play 1, Play 2, Play 4, Play 3, Play 5, Play 7, Play 6, Play 8])
       = Inr (plain [MarkX, MarkO, MarkX, MarkX, MarkO, MarkO, MarkO, MarkX, MarkX])
   \<and> calculateWinner [MarkX, MarkO, MarkX, MarkX, MarkO, MarkO, MarkO, MarkX, MarkX] = None
   \<and> board_full [MarkX, MarkO, MarkX, MarkX, MarkO, MarkO, MarkO, MarkX, MarkX]
   \<and> render (state_after [Play 0, Play 1, Play 2, Play 4, Play 3, Play 5, Play 7, Play 6, Play 8])
       = Inr (''Draw'', [])
   \<and> currentSquares (state_after [Play 4])
       = Inr (plain [Null, Null, Null, Null, MarkX, Null, Null, Null, Null])
   \<and> calculateWinner [Null, Null, Null, Null, MarkX, Null, Null, Null, Null] = None
   \<and> is_board [Null, Null, Null, Null, MarkX, Null, Null, Null, Null]
   \<and> \<not> board_full [Null, Null, Null, Null, MarkX, Null, Null, Null, Null]
   \<and> render (state_after [Play 4]) = Inr (''Next player: O'', [])"
proof -
  let ?won = "state_after [Play 0, Play 1, Play 3, Play 4, Play 6]"
  let ?wb = "[MarkX, MarkO, Null, MarkX, MarkO, Null, MarkX, Null, Null]"
  let ?drawn = "state_after [Play 0, Play 1, Play 2, Play 4, Play 3, Play 5, Play 7, Play 6, Play 8]"
  let ?db = "[MarkX, MarkO, MarkX, MarkX, MarkO, MarkO, MarkO, MarkX, MarkX]"
  let ?one = "state_after [Play 4]"
  let ?ob = "[Null, Null, Null, Null, MarkX, Null, Null, Null, Null]"
  have e: "elems (plain xs) = xs" for xs by (simp add: plain_def)
  have w1: "currentSquares ?won = Inr (plain ?wb)" by code_simp
  have w2: "calculateWinner ?wb = Some \<lparr>player = MarkX, line = [0, 3, 6]\<rparr>" by code_simp
  have d1: "currentSquares ?drawn = Inr (plain ?db)" by code_simp
  have d2: "calculateWinner ?db = None" by code_simp
  have d3: "board_full ?db" by code_simp
  have o1: "currentSquares ?one = Inr (plain ?ob)" by code_simp
  have o2: "calculateWinner ?ob = None" by code_simp
  have o3: "is_board ?ob" by code_simp
  have o4: "\<not> board_full ?ob" by code_simp
  have o5: "even (currentMove ?one) = False" by code_simp
  from status_derivation [of ?won "plain ?wb", THEN conjunct1] w1 w2
  have w: "render ?won = Inr (''Winner: X'', [0, 3, 6])"
    by (auto simp: e)
  from status_derivation [of ?drawn "plain ?db", THEN conjunct1] d1 d2 d3
  have "render ?drawn = Inr (''Draw'', winningSquares (plain ?db))"
    by (auto simp: e)
  moreover have "winningSquares (plain ?db) = []" by code_simp
  ultimately have d: "render ?drawn = Inr (''Draw'', [])" by simp
  from status_derivation [of ?one "plain ?ob", THEN conjunct1] o1 o2 o3 o4 o5
  have "render ?one = Inr (''Next player: O'', winningSquares (plain ?ob))"
    by (auto simp: e)
  moreover have "winningSquares (plain ?ob) = []" by code_simp
  ultimately have n: "render ?one = Inr (''Next player: O'', [])" by simp
  from w1 w2 w d1 d2 d3 d o1 o2 o3 o4 n show ?thesis
    by (simp only: simp_thms)
qed

subsection \<open>Alternating marks\<close>

lemma history_ok_step:
  assumes "history_ok h" and "Suc k < length h"
  shows "\<exists>i<9. elems (squares (h ! k)) ! i = Null
           \<and> squares (h ! Suc k)
               = plain ((elems (squares (h ! k)))[i := (if even k then MarkX else MarkO)])"
proof -
  from assms have "move_step k (squares (h ! k)) (squares (h ! Suc k))"
    by (simp add: history_ok_def)
  then show ?thesis
    by (auto simp: move_step_def mark_for_def)
qed

lemma game_ok_successful_play:
  assumes ok: "game_ok g" and i: "0 \<le> i" "i < 9" and play: "play g i = Inr g'" and ch: "g' \<noteq> g"
  shows "\<exists>sq. currentSquares g = Inr sq
           \<and> elems sq ! nat i = Null
           \<and> currentSquares g'
               = Inr (plain ((elems sq)[nat i := (if even (currentMove g) then MarkX else MarkO)]))
           \<and> currentMove g' = currentMove g + 1"
proof -
  let ?sq = "squares (history g ! nat (currentMove g))"
  let ?loc = "''('' @ string_of_int (js_rem i 3 + 1) @ '', '' @ string_of_int (i div 3 + 1) @ '')''"
  let ?b = "array_set (array_slice ?sq) i (mark_for (currentMove g))"
  from ok have cur: "currentSquares g = Inr ?sq" by (rule game_ok_currentSquares)
  from ok have p0: "0 \<le> currentMove g" and p: "currentMove g < int (length (history g))"
    by (simp_all add: game_ok_def)
  from ok cur have board: "is_board (elems ?sq)" by (simp add: game_ok_board)
  then have len: "length (elems ?sq) = 9" by (simp add: is_board_def)
  from play ch cur have free: "\<not> truthy (array_get ?sq i)"
    and g': "g' = handlePlay g ?b ?loc"
    by (auto simp: play_unfold split: if_splits)
  from board i free have null: "elems ?sq ! nat i = Null" by (rule board_falsy_cell)
  from i len have b: "?b = plain ((elems ?sq)[nat i := mark_for (currentMove g)])"
    by (rule array_set_cell)
  have "currentSquares g' = Inr ?b"
    unfolding g' handlePlay_record [OF p0 p] using p0 p
    by (simp add: currentSquares_def nth_append nat_add_distrib)
  with cur null b p0 p show ?thesis
    by (simp add: g' currentMove_handlePlay mark_for_def)
qed

text \<open>
  C6. In every reachable state the player to move is given by the parity of the pointer,
  X at an even pointer. A play on a cell 0..8 that changes the state puts exactly one
  mark, that player's, into a cell that was empty: the new current board is the old
  one with that cell replaced, and the pointer advances by one. Along the history every
  snapshot is its predecessor with one empty cell replaced by X after an even index and
  by O after an odd one.
\<close>

theorem marks_alternate:
  "reachable g \<longrightarrow>
     (xIsNext g \<longleftrightarrow> even (currentMove g))
     \<and> (\<forall>i g'. 0 \<le> i \<and> i < 9 \<and> play g i = Inr g' \<and> g' \<noteq> g \<longrightarrow>
          (\<exists>sq. currentSquares g = Inr sq
             \<and> elems sq ! nat i = Null
             \<and> currentSquares g'
                 = Inr (plain ((elems sq)[nat i := (if even (currentMove g) then MarkX else MarkO)]))
             \<and> currentMove g' = currentMove g + 1))
     \<and> (\<forall>k. Suc k < length (history g) \<longrightarrow>
          (\<exists>i<9. elems (squares (history g ! k)) ! i = Null
             \<and> squares (history g ! Suc k)
                 = plain ((elems (squares (history g ! k)))[i := (if even k then MarkX else MarkO)])))"
proof (intro impI conjI allI)
  show "xIsNext g \<longleftrightarrow> even (currentMove g)"
    by (simp add: xIsNext_def js_rem_2_even)
next
  fix i g'
  assume "reachable g" and "0 \<le> i \<and> i < 9 \<and> play g i = Inr g' \<and> g' \<noteq> g"
  then show "\<exists>sq. currentSquares g = Inr sq
             \<and> elems sq ! nat i = Null
             \<and> currentSquares g'
                 = Inr (plain ((elems sq)[nat i := (if even (currentMove g) then MarkX else MarkO)]))
             \<and> currentMove g' = currentMove g + 1"
    by (intro game_ok_successful_play reachable_game_ok) simp_all
next
  fix k
  assume "reachable g" and "Suc k < length (history g)"
  then show "\<exists>i<9. elems (squares (history g ! k)) ! i = Null
             \<and> squares (history g ! Suc k)
                 = plain ((elems (squares (history g ! k)))[i := (if even k then MarkX else MarkO)])"
    by (intro history_ok_step) (simp_all add: reachable_game_ok [unfolded game_ok_def])
qed

theorem marks_alternate_witness:
  "reachable (state_after [Play 0, Play 4])
   \<and> (0 :: int) \<le> 8 \<and> (8 :: int) < 9
   \<and> play (state_after [Play 0, Play 4]) 8 = Inr (state_after [Play 0, Play 4, Play 8])
   \<and> state_after [Play 0, Play 4, Play 8] \<noteq> state_after [Play 0, Play 4]
   \<and> currentMove (state_after [Play 0, Play 4]) = 2
   \<and> xIsNext (state_after [Play 0, Play 4])
   \<and> currentSquares (state_after [Play 0, Play 4])
       = Inr (plain [MarkX, Null, Null, Null, MarkO, Null, Null, Null, Null])
   \<and> currentSquares (state_after [Play 0, Play 4, Play 8])
       = Inr (plain [MarkX, Null, Null, Null, MarkO, Null, Null, Null, MarkX])
   \<and> currentMove (state_after [Play 0, Play 4, Play 8]) = 3
   \<and> Suc 1 < length (history (state_after [Play 0, Play 4]))
   \<and> (\<exists>i<9. elems (squares (history (state_after [Play 0, Play 4]) ! 1)) ! i = Null
         \<and> squares (history (state_after [Play 0, Play 4]) ! 2)
             = plain ((elems (squares (history (state_after [Play 0, Play 4]) ! 1)))[i := MarkO]))"
proof -
  let ?g = "state_after [Play 0, Play 4]"
  let ?g' = "state_after [Play 0, Play 4, Play 8]"
  let ?b = "[MarkX, Null, Null, Null, MarkO, Null, Null, Null, Null]"
  have run: "run initial_game [Play 0, Play 4] = Inr ?g" by code_simp
  have r: "reachable ?g"
    by (rule state_after_reachable [OF _ run]) simp
  have pl: "play ?g 8 = Inr ?g'" by code_simp
  have ne: "?g' \<noteq> ?g" by code_simp
  have cm: "currentMove ?g = 2" by code_simp
  have cur: "currentSquares ?g = Inr (plain ?b)" by code_simp
  have len: "Suc 1 < length (history ?g)" by code_simp
  note T = marks_alternate [of ?g, rule_format, OF r]
  from T [THEN conjunct1] cm have x: "xIsNext ?g" by simp
  from T [THEN conjunct2, THEN conjunct1, rule_format, of 8 ?g'] pl ne
  obtain sq where sq: "currentSquares ?g = Inr sq"
    and new: "currentSquares ?g'
        = Inr (plain ((elems sq)[nat 8 := (if even (currentMove ?g) then MarkX else MarkO)]))"
    and adv: "currentMove ?g' = currentMove ?g + 1"
    by auto
  from sq cur have "sq = plain ?b" by simp
  moreover have "plain ((elems (plain ?b))[nat 8 := (if even (currentMove ?g) then MarkX else MarkO)])
      = plain [MarkX, Null, Null, Null, MarkO, Null, Null, Null, MarkX]"
    by code_simp
  ultimately have cur': "currentSquares ?g' = Inr (plain [MarkX, Null, Null, Null, MarkO, Null, Null, Null, MarkX])"
    using new by simp
  from adv cm have cm': "currentMove ?g' = 3" by simp
  from T [THEN conjunct2, THEN conjunct2, rule_format, of 1] len
  have st: "\<exists>i<9. elems (squares (history ?g ! 1)) ! i = Null
         \<and> squares (history ?g ! 2) = plain ((elems (squares (history ?g ! 1)))[i := MarkO])"
    by (simp add: numeral_2_eq_2)
  from r pl ne cm x cur cur' cm' len st show ?thesis
    by (simp only: simp_thms) simp
qed

subsection \<open>How many marks a snapshot holds\<close>

lemma count_list_update:
  "i < length xs \<Longrightarrow>
   count_list (xs[i := y]) c + (if xs ! i = c then 1 else 0)
     = count_list xs c + (if y = c then 1 else 0)"
proof (induction xs arbitrary: i)
  case Nil
  then show ?case by simp
next
  case (Cons x xs)
  show ?case
  proof (cases i)
    case 0
    then show ?thesis by simp
  next
    case (Suc j)
    with Cons.prems have "j < length xs" by simp
    from Cons.IH [OF this] Suc show ?thesis by (auto split: if_splits)
  qed
qed

lemma count_list_place_mark:
  assumes "i < length xs" and "xs ! i = Null" and "m \<noteq> Null"
  shows "count_list (xs[i := m]) c
           = (if c = m then count_list xs c + 1
              else if c = Null then count_list xs c - 1
              else count_list xs c)"
    and "c = Null \<Longrightarrow> 0 < count_list xs c"
proof -
  from assms(1,2) have "Null \<in> set xs" by (metis nth_mem)
  then have "count_list xs Null \<noteq> 0"
    by (simp only: count_list_0_iff simp_thms)
  then show "c = Null \<Longrightarrow> 0 < count_list xs c"
    by simp
  with count_list_update [OF assms(1), of m c] assms(2,3)
  show "count_list (xs[i := m]) c
           = (if c = m then count_list xs c + 1
              else if c = Null then count_list xs c - 1
              else count_list xs c)"
    by (auto split: if_splits)
qed

lemma history_ok_counts:
  assumes "history_ok h" and "k < length h"
  shows "count_list (elems (squares (h ! k))) MarkX = (k + 1) div 2
       \<and> count_list (elems (squares (h ! k))) MarkO = k div 2
       \<and> count_list (elems (squares (h ! k))) Null + k = 9
       \<and> count_list (elems (squares (h ! k))) Absent = 0"
  using assms(2)
proof (induction k)
  case 0
  from assms(1) have "squares (h ! 0) = plain (replicate 9 Null)"
    by (simp add: history_ok_def initial_entry_def)
  then show ?case
    by (simp add: plain_def count_list_0_iff)
      (simp add: numeral_eq_Suc)
next
  case (Suc k)
  let ?b = "elems (squares (h ! k))"
  from Suc have IH: "count_list ?b MarkX = (k + 1) div 2" "count_list ?b MarkO = k div 2"
    "count_list ?b Null + k = 9" "count_list ?b Absent = 0"
    by simp_all
  from assms(1) Suc.prems have "is_board ?b"
    by (simp add: history_ok_board)
  then have len: "length ?b = 9" by (simp add: is_board_def)
  from assms(1) Suc.prems obtain i where i: "i < 9" and null: "?b ! i = Null"
    and nxt: "squares (h ! Suc k) = plain (?b[i := (if even k then MarkX else MarkO)])"
    using history_ok_step by blast
  let ?m = "if even k then MarkX else MarkO"
  from i len have il: "i < length ?b" by simp
  have m: "?m \<noteq> Null" by simp
  note cnt = count_list_place_mark [OF il null m]
  have e: "elems (squares (h ! Suc k)) = ?b[i := ?m]"
    by (simp add: nxt plain_def)
  have pos: "0 < count_list ?b Null" by (rule cnt(2)) simp
  have cX: "count_list (elems (squares (h ! Suc k))) MarkX
      = (if even k then count_list ?b MarkX + 1 else count_list ?b MarkX)"
    unfolding e using cnt(1) [of MarkX] by simp
  have cO: "count_list (elems (squares (h ! Suc k))) MarkO
      = (if even k then count_list ?b MarkO else count_list ?b MarkO + 1)"
    unfolding e using cnt(1) [of MarkO] by simp
  have cN: "count_list (elems (squares (h ! Suc k))) Null = count_list ?b Null - 1"
    unfolding e using cnt(1) [of Null] by simp
  have cA: "count_list (elems (squares (h ! Suc k))) Absent = count_list ?b Absent"
    unfolding e using cnt(1) [of Absent] by simp
  have pX: "(Suc k + 1) div 2 = (if even k then (k + 1) div 2 + 1 else (k + 1) div 2)"
    by (auto elim!: evenE oddE)
  have pO: "Suc k div 2 = (if even k then k div 2 else k div 2 + 1)"
    by (auto elim!: evenE oddE)
  from IH pos show ?case
    unfolding cX cO cN cA pX pO by auto
qed

lemma length_filter_is_mark:
  "length (filter is_mark xs) = count_list xs MarkX + count_list xs MarkO"
  by (induction xs) (auto simp: is_mark_def)

text \<open>
  C10. In every reachable state the snapshot stored at history index \<open>k\<close> is a
  nine-cell board with exactly \<open>k\<close> non-empty cells: \<open>k\<close> rounded up to an even number
  and halved are X, \<open>k\<close> halved and rounded down are O, the other \<open>9 - k\<close> are empty.
\<close>

theorem snapshot_mark_counts:
  "reachable g \<and> k < length (history g) \<longrightarrow>
     length (elems (squares (history g ! k))) = 9
     \<and> props (squares (history g ! k)) = []
     \<and> length (filter is_mark (elems (squares (history g ! k)))) = k
     \<and> count_list (elems (squares (history g ! k))) MarkX = (k + 1) div 2
     \<and> count_list (elems (squares (history g ! k))) MarkO = k div 2
     \<and> count_list (elems (squares (history g ! k))) Null = 9 - k"
proof
  assume h: "reachable g \<and> k < length (history g)"
  then have ok: "history_ok (history g)"
    by (simp add: reachable_game_ok [unfolded game_ok_def])
  from h have k: "k < length (history g)" by simp
  from history_ok_board [OF ok k] have "length (elems (squares (history g ! k))) = 9"
    and "props (squares (history g ! k)) = []"
    by (simp_all add: is_board_def)
  moreover note c = history_ok_counts [OF ok k]
  moreover from c have "length (filter is_mark (elems (squares (history g ! k)))) = k"
    by (simp add: length_filter_is_mark)
  moreover from c have "count_list (elems (squares (history g ! k))) Null = 9 - k"
    by arith
  ultimately show "length (elems (squares (history g ! k))) = 9
     \<and> props (squares (history g ! k)) = []
     \<and> length (filter is_mark (elems (squares (history g ! k)))) = k
     \<and> count_list (elems (squares (history g ! k))) MarkX = (k + 1) div 2
     \<and> count_list (elems (squares (history g ! k))) MarkO = k div 2
     \<and> count_list (elems (squares (history g ! k))) Null = 9 - k"
    by simp
qed

theorem snapshot_mark_counts_witness:
  "reachable (state_after [Play 0, Play 4, Play 8])
   \<and> 3 < length (history (state_after [Play 0, Play 4, Play 8]))
   \<and> squares (history (state_after [Play 0, Play 4, Play 8]) ! 3)
       = plain [MarkX, Null, Null, Null, MarkO, Null, Null, Null, MarkX]
   \<and> length (filter is_mark (elems (squares (history (state_after [Play 0, Play 4, Play 8]) ! 3)))) = 3
   \<and> count_list (elems (squares (history (state_after [Play 0, Play 4, Play 8]) ! 3))) MarkX = 2
   \<and> count_list (elems (squares (history (state_after [Play 0, Play 4, Play 8]) ! 3))) MarkO = 1
   \<and> count_list (elems (squares (history (state_after [Play 0, Play 4, Play 8]) ! 3))) Null = 6"
proof -
  let ?g = "state_after [Play 0, Play 4, Play 8]"
  have run: "run initial_game [Play 0, Play 4, Play 8] = Inr ?g" by code_simp
  have r: "reachable ?g"
    by (rule state_after_reachable [OF _ run]) simp
  have len: "3 < length (history ?g)" by code_simp
  have sq: "squares (history ?g ! 3) = plain [MarkX, Null, Null, Null, MarkO, Null, Null, Null, MarkX]"
    by code_simp
  from snapshot_mark_counts [of ?g 3] r len
  have "length (filter is_mark (elems (squares (history ?g ! 3)))) = 3"
    and "count_list (elems (squares (history ?g ! 3))) MarkX = 2"
    and "count_list (elems (squares (history ?g ! 3))) MarkO = 1"
    and "count_list (elems (squares (history ?g ! 3))) Null = 6"
    by simp_all
  with r len sq show ?thesis
    by (simp only: simp_thms)
qed

subsection \<open>Sorting and jumping\<close>

lemma moves_toggleSortOrder: "moves (toggleSortOrder g) = moves g"
  by (simp add: moves_def toggleSortOrder_def)

text \<open>
  C7. \<open>toggleSortOrder\<close> negates the sort flag and leaves history and pointer as they
  are; the move list itself is the same and only its displayed order is reversed.
  \<open>jumpTo\<close> with an index of the history sets the pointer to it and leaves history and
  sort flag as they are; the board at that index becomes the current board.
\<close>

theorem toggle_and_jump_frame:
  "history (toggleSortOrder g) = history g
   \<and> currentMove (toggleSortOrder g) = currentMove g
   \<and> isAscending (toggleSortOrder g) = (\<not> isAscending g)
   \<and> moves (toggleSortOrder g) = moves g
   \<and> displayed_moves (toggleSortOrder g) = rev (displayed_moves g)
   \<and> (0 \<le> m \<and> m < int (length (history g)) \<longrightarrow>
        history (jumpTo g m) = history g
        \<and> isAscending (jumpTo g m) = isAscending g
        \<and> currentMove (jumpTo g m) = m
        \<and> currentSquares (jumpTo g m) = Inr (squares (history g ! nat m)))"
proof (intro conjI impI)
  show "history (toggleSortOrder g) = history g"
    and "currentMove (toggleSortOrder g) = currentMove g"
    and "isAscending (toggleSortOrder g) = (\<not> isAscending g)"
    by (simp_all add: toggleSortOrder_def)
  show "moves (toggleSortOrder g) = moves g"
    by (rule moves_toggleSortOrder)
  show "displayed_moves (toggleSortOrder g) = rev (displayed_moves g)"
    by (simp add: displayed_moves_def moves_toggleSortOrder) (simp add: toggleSortOrder_def)
next
  assume "0 \<le> m \<and> m < int (length (history g))"
  then show "currentSquares (jumpTo g m) = Inr (squares (history g ! nat m))"
    by (simp add: currentSquares_def jumpTo_def)
  show "history (jumpTo g m) = history g" and "isAscending (jumpTo g m) = isAscending g"
    and "currentMove (jumpTo g m) = m"
    by (simp_all add: jumpTo_def)
qed

theorem toggle_and_jump_frame_witness:
  "(0 :: int) \<le> 1 \<and> 1 < int (length (history (state_after [Play 0, Play 4])))
   \<and> history (jumpTo (state_after [Play 0, Play 4]) 1) = history (state_after [Play 0, Play 4])
   \<and> currentMove (jumpTo (state_after [Play 0, Play 4]) 1) = 1
   \<and> currentSquares (jumpTo (state_after [Play 0, Play 4]) 1)
       = Inr (plain [MarkX, Null, Null, Null, Null, Null, Null, Null, Null])
   \<and> displayed_moves (state_after [Play 0, Play 4])
       = [\<lparr>key = 0, bold = False, description = ''Go to game start''\<rparr>,
          \<lparr>key = 1, bold = False, description = ''Go to move #1 ((1, 1))''\<rparr>,
          \<lparr>key = 2, bold = True, description = ''Go to move #2 ((2, 2))''\<rparr>]
   \<and> displayed_moves (toggleSortOrder (state_after [Play 0, Play 4]))
       = [\<lparr>key = 2, bold = True, description = ''Go to move #2 ((2, 2))''\<rparr>,
          \<lparr>key = 1, bold = False, description = ''Go to move #1 ((1, 1))''\<rparr>,
          \<lparr>key = 0, bold = False, description = ''Go to game start''\<rparr>]"
proof -
  let ?g = "state_after [Play 0, Play 4]"
  note T = toggle_and_jump_frame [of ?g 1]
  have m: "(0 :: int) \<le> 1 \<and> 1 < int (length (history ?g))" by code_simp
  have b: "squares (history ?g ! nat 1) = plain [MarkX, Null, Null, Null, Null, Null, Null, Null, Null]"
    by code_simp
  have d: "displayed_moves ?g
       = [\<lparr>key = 0, bold = False, description = ''Go to game start''\<rparr>,
          \<lparr>key = 1, bold = False, description = ''Go to move #1 ((1, 1))''\<rparr>,
          \<lparr>key = 2, bold = True, description = ''Go to move #2 ((2, 2))''\<rparr>]"
    by code_simp
  from T m have j: "history (jumpTo ?g 1) = history ?g" "currentMove (jumpTo ?g 1) = 1"
    "currentSquares (jumpTo ?g 1) = Inr (squares (history ?g ! nat 1))"
    by simp_all
  from T have "displayed_moves (toggleSortOrder ?g) = rev (displayed_moves ?g)"
    by simp
  then have t: "displayed_moves (toggleSortOrder ?g)
       = [\<lparr>key = 2, bold = True, description = ''Go to move #2 ((2, 2))''\<rparr>,
          \<lparr>key = 1, bold = False, description = ''Go to move #1 ((1, 1))''\<rparr>,
          \<lparr>key = 0, bold = False, description = ''Go to game start''\<rparr>]"
    by (simp add: d)
  from m j(1,2) j(3) [unfolded b] d t show ?thesis
    by (simp only: simp_thms)
qed

subsection \<open>The location of a move\<close>

lemma location_table:
  "i \<in> {0, 1, 2, 3, 4, 5, 6, 7, 8} \<Longrightarrow>
   ''('' @ string_of_int (js_rem i 3 + 1) @ '', '' @ string_of_int (i div 3 + 1) @ '')''
     = [''(1, 1)'', ''(2, 1)'', ''(3, 1)'',
        ''(1, 2)'', ''(2, 2)'', ''(3, 2)'',
        ''(1, 3)'', ''(2, 3)'', ''(3, 3)''] ! nat i"
  apply (elim insertE emptyE)
  apply (simp_all only:)
  apply code_simp+
  done

lemma cell_index_cases:
  assumes "0 \<le> i" and "i < 9"
  shows "i \<in> {0, 1, 2, 3, 4, 5, 6, 7, 8 :: int}"
  using assms by (simp only: insert_iff empty_iff) arith

lemma js_rem_nonneg: "0 \<le> a \<Longrightarrow> js_rem a b = a mod b"
  by (simp add: js_rem_def)

lemma string_of_digit: "0 \<le> d \<Longrightarrow> d < 10 \<Longrightarrow> string_of_int d = [digit d]"
  by (simp add: string_of_int_def decimal.simps)

text \<open>
  C8. A play on cell \<open>i\<close> of 0..8 that goes through stores, with the new last history
  entry, the text \<open>(col, row)\<close> where \<open>col = i mod 3 + 1\<close> and \<open>row = i div 3 + 1\<close>
  are single digits between 1 and 3, so that \<open>i = 3 * (row - 1) + (col - 1)\<close>. For the
  nine cells, in order, these are the texts of the table below. The initial history
  entry has the empty text, and it stays the first entry of every reachable state.
\<close>

theorem location_of_play:
  "(currentSquares g = Inr sq \<and> calculateWinner (elems sq) = None \<and> \<not> truthy (array_get sq i)
      \<and> 0 \<le> i \<and> i < 9 \<longrightarrow>
      (\<exists>g'. play g i = Inr g'
         \<and> location (last (history g'))
             = [CHR ''('', digit (i mod 3 + 1), CHR '','', CHR '' '', digit (i div 3 + 1), CHR '')'']
         \<and> location (last (history g'))
             = [''(1, 1)'', ''(2, 1)'', ''(3, 1)'',
                ''(1, 2)'', ''(2, 2)'', ''(3, 2)'',
                ''(1, 3)'', ''(2, 3)'', ''(3, 3)''] ! nat i
         \<and> 1 \<le> i mod 3 + 1 \<and> i mod 3 + 1 \<le> 3 \<and> 1 \<le> i div 3 + 1 \<and> i div 3 + 1 \<le> 3
         \<and> i = 3 * ((i div 3 + 1) - 1) + ((i mod 3 + 1) - 1)))
   \<and> location (history initial_game ! 0) = []
   \<and> (reachable g \<longrightarrow> location (history g ! 0) = [])"
proof (intro conjI impI)
  assume h: "currentSquares g = Inr sq \<and> calculateWinner (elems sq) = None \<and> \<not> truthy (array_get sq i)
      \<and> 0 \<le> i \<and> i < 9"
  let ?loc = "''('' @ string_of_int (js_rem i 3 + 1) @ '', '' @ string_of_int (i div 3 + 1) @ '')''"
  let ?g' = "handlePlay g (array_set (array_slice sq) i (mark_for (currentMove g))) ?loc"
  from h have p0: "0 \<le> currentMove g"
    by (simp add: currentSquares_pointer)
  from h have pl: "play g i = Inr ?g'"
    by (simp add: play_unfold)
  have last: "location (last (history ?g')) = ?loc"
    using p0 by (simp add: history_handlePlay)
  from h have i: "0 \<le> i" "i < 9" by simp_all
  have col: "0 \<le> i mod 3" "i mod 3 < 3" by simp_all
  from cell_index_cases [OF i] have row: "0 \<le> i div 3" "i div 3 < 3"
    by (elim insertE emptyE; simp)+
  from col have "string_of_int (i mod 3 + 1) = [digit (i mod 3 + 1)]"
    by (intro string_of_digit) linarith+
  moreover from row have "string_of_int (i div 3 + 1) = [digit (i div 3 + 1)]"
    by (intro string_of_digit) linarith+
  ultimately have digits: "?loc = [CHR ''('', digit (i mod 3 + 1), CHR '','', CHR '' '', digit (i div 3 + 1), CHR '')'']"
    using i by (simp add: js_rem_nonneg)
  note table = location_table [OF cell_index_cases [OF i]]
  have "play g i = Inr ?g'
         \<and> location (last (history ?g'))
             = [CHR ''('', digit (i mod 3 + 1), CHR '','', CHR '' '', digit (i div 3 + 1), CHR '')'']
         \<and> location (last (history ?g'))
             = [''(1, 1)'', ''(2, 1)'', ''(3, 1)'',
                ''(1, 2)'', ''(2, 2)'', ''(3, 2)'',
                ''(1, 3)'', ''(2, 3)'', ''(3, 3)''] ! nat i
         \<and> 1 \<le> i mod 3 + 1 \<and> i mod 3 + 1 \<le> 3 \<and> 1 \<le> i div 3 + 1 \<and> i div 3 + 1 \<le> 3
         \<and> i = 3 * ((i div 3 + 1) - 1) + ((i mod 3 + 1) - 1)"
  proof (intro conjI)
    show "play g i = Inr ?g'" by (rule pl)
    show "location (last (history ?g'))
        = [CHR ''('', digit (i mod 3 + 1), CHR '','', CHR '' '', digit (i div 3 + 1), CHR '')'']"
      by (rule trans [OF last digits])
    show "location (last (history ?g'))
        = [''(1, 1)'', ''(2, 1)'', ''(3, 1)'',
           ''(1, 2)'', ''(2, 2)'', ''(3, 2)'',
           ''(1, 3)'', ''(2, 3)'', ''(3, 3)''] ! nat i"
      by (rule trans [OF last table])
    show "1 \<le> i mod 3 + 1" and "i mod 3 + 1 \<le> 3" using col by linarith+
    show "1 \<le> i div 3 + 1" and "i div 3 + 1 \<le> 3" using row by linarith+
    show "i = 3 * ((i div 3 + 1) - 1) + ((i mod 3 + 1) - 1)" by presburger
  qed
  then show "\<exists>g'. play g i = Inr g'
         \<and> location (last (history g'))
             = [CHR ''('', digit (i mod 3 + 1), CHR '','', CHR '' '', digit (i div 3 + 1), CHR '')'']
         \<and> location (last (history g'))
             = [''(1, 1)'', ''(2, 1)'', ''(3, 1)'',
                ''(1, 2)'', ''(2, 2)'', ''(3, 2)'',
                ''(1, 3)'', ''(2, 3)'', ''(3, 3)''] ! nat i
         \<and> 1 \<le> i mod 3 + 1 \<and> i mod 3 + 1 \<le> 3 \<and> 1 \<le> i div 3 + 1 \<and> i div 3 + 1 \<le> 3
         \<and> i = 3 * ((i div 3 + 1) - 1) + ((i mod 3 + 1) - 1)"
    by (rule exI [of _ ?g'])
next
  show "location (history initial_game ! 0) = []"
    by (simp add: initial_game_def)
next
  assume "reachable g"
  then show "location (history g ! 0) = []"
    by (simp add: reachable_history_start initial_entry_def)
qed

theorem location_of_play_witness:
  "currentSquares (state_after [Play 0])
     = Inr (plain [MarkX, Null, Null, Null, Null, Null, Null, Null, Null])
   \<and> calculateWinner [MarkX, Null, Null, Null, Null, Null, Null, Null, Null] = None
   \<and> \<not> truthy (array_get (plain [MarkX, Null, Null, Null, Null, Null, Null, Null, Null]) 5)
   \<and> (0 :: int) \<le> 5 \<and> (5 :: int) < 9
   \<and> (\<exists>g'. play (state_after [Play 0]) 5 = Inr g' \<and> location (last (history g')) = ''(3, 2)'')
   \<and> reachable (state_after [Play 0])
   \<and> location (history (state_after [Play 0]) ! 0) = []"
proof -
  let ?g = "state_after [Play 0]"
  let ?b = "[MarkX, Null, Null, Null, Null, Null, Null, Null, Null]"
  note T = location_of_play [of ?g "plain ?b" 5]
  have e: "elems (plain xs) = xs" for xs by (simp add: plain_def)
  have h1: "currentSquares ?g = Inr (plain ?b)" by code_simp
  have h2: "calculateWinner ?b = None" by code_simp
  have h3: "\<not> truthy (array_get (plain ?b) 5)" by code_simp
  have run: "run initial_game [Play 0] = Inr ?g" by code_simp
  have r: "reachable ?g"
    by (rule state_after_reachable [OF _ run]) simp
  have tab: "[''(1, 1)'', ''(2, 1)'', ''(3, 1)'',
               ''(1, 2)'', ''(2, 2)'', ''(3, 2)'',
               ''(1, 3)'', ''(2, 3)'', ''(3, 3)''] ! nat 5 = ''(3, 2)''"
    by code_simp
  from T [THEN conjunct1] h1 h2 h3 obtain g' where "play ?g 5 = Inr g'"
    and "location (last (history g'))
       = [''(1, 1)'', ''(2, 1)'', ''(3, 1)'',
          ''(1, 2)'', ''(2, 2)'', ''(3, 2)'',
          ''(1, 3)'', ''(2, 3)'', ''(3, 3)''] ! nat 5"
    unfolding e by auto
  then have ex: "\<exists>g'. play ?g 5 = Inr g' \<and> location (last (history g')) = ''(3, 2)''"
    unfolding tab by blast
  from T [THEN conjunct2, THEN conjunct2] r have first: "location (history ?g ! 0) = []"
    by simp
  from h1 h2 h3 ex r first show ?thesis
    by (simp only: simp_thms) simp
qed

subsection \<open>Snapshots are never written to\<close>

lemma xIsNext_st_mark_for: "(if xIsNext_st g then MarkX else MarkO) = mark_for (currentMove_st g)"
  by (simp add: xIsNext_st_def mark_for_def js_rem_2_even)

lemma currentSquares_st_pointer:
  "currentSquares_st g = Inr r \<Longrightarrow>
   0 \<le> currentMove_st g \<and> currentMove_st g < int (length (history_st g))
   \<and> r = squares_ref (history_st g ! nat (currentMove_st g))"
  by (auto simp: currentSquares_st_def split: if_splits)

lemma play_st_unfold:
  assumes "currentSquares_st g = Inr r"
  shows "play_st g i =
     Inr (if calculateWinner (elems (store g ! r)) \<noteq> None \<or> truthy (array_get (store g ! r) i) then g
          else handlePlay_st
                 (g\<lparr>store := store g
                     @ [array_set (array_slice (store g ! r)) i (mark_for (currentMove_st g))]\<rparr>)
                 (length (store g))
                 (''('' @ string_of_int (js_rem i 3 + 1) @ '', '' @ string_of_int (i div 3 + 1) @ '')''))"
  using assms
  by (simp add: play_st_def handleClick_st_def alloc_def Let_def xIsNext_st_mark_for)

lemma store_handlePlay_st: "store (handlePlay_st g r l) = store g"
  by (simp add: handlePlay_st_def Let_def)

lemma history_handlePlay_st:
  "0 \<le> currentMove_st g \<Longrightarrow>
   history_st (handlePlay_st g r l)
     = take (nat (currentMove_st g) + 1) (history_st g) @ [\<lparr>squares_ref = r, location_st = l\<rparr>]"
  by (simp add: handlePlay_st_def Let_def slice_to_def nat_add_distrib)

lemma currentSquares_contents:
  assumes "currentSquares_st g = Inr r"
  shows "currentSquares (contents g) = Inr (store g ! r)"
proof -
  from assms have p: "0 \<le> currentMove_st g" "currentMove_st g < int (length (history_st g))"
    and r: "r = squares_ref (history_st g ! nat (currentMove_st g))"
    by (simp_all add: currentSquares_st_pointer)
  from p have "nat (currentMove_st g) < length (history_st g)" by linarith
  with p r show ?thesis
    by (simp add: currentSquares_def contents_def)
qed

lemma contents_handlePlay_st:
  assumes ok: "refs_ok g" and p0: "0 \<le> currentMove_st g"
  shows "contents (handlePlay_st (g\<lparr>store := store g @ [b]\<rparr>) (length (store g)) l)
           = handlePlay (contents g) b l"
proof -
  let ?s = "store g @ [b]"
  let ?n = "nat (currentMove_st g) + 1"
  have old: "?s ! squares_ref e = store g ! squares_ref e" if "e \<in> set (take ?n (history_st g))" for e
  proof -
    from that have "e \<in> set (history_st g)" by (rule in_set_takeD)
    with ok have "squares_ref e < length (store g)" by (simp add: refs_ok_def)
    then show ?thesis by (simp add: nth_append)
  qed
  have "map (\<lambda>e. \<lparr>squares = ?s ! squares_ref e, location = location_st e\<rparr>) (take ?n (history_st g))
      = map (\<lambda>e. \<lparr>squares = store g ! squares_ref e, location = location_st e\<rparr>) (take ?n (history_st g))"
    by (rule map_cong) (simp_all add: old)
  then show ?thesis
    using p0
    by (simp add: contents_def handlePlay_st_def handlePlay_def Let_def slice_to_def
        nat_add_distrib take_map)
qed

lemma refs_ok_handlePlay_st:
  assumes ok: "refs_ok g" and p0: "0 \<le> currentMove_st g"
  shows "refs_ok (handlePlay_st (g\<lparr>store := store g @ [b]\<rparr>) (length (store g)) l)"
proof -
  have "squares_ref e < Suc (length (store g))"
    if "e \<in> set (take (nat (currentMove_st g) + 1) (history_st g))" for e
  proof -
    from that have "e \<in> set (history_st g)" by (rule in_set_takeD)
    with ok show ?thesis by (simp add: refs_ok_def less_Suc_eq)
  qed
  with p0 show ?thesis
    by (auto simp: refs_ok_def history_handlePlay_st store_handlePlay_st)
qed

lemma play_st_frame:
  assumes ok: "refs_ok g" and pl: "play_st g i = Inr g'"
  shows "refs_ok g'"
    and "length (store g) \<le> length (store g')"
    and "\<forall>r<length (store g). store g' ! r = store g ! r"
    and "g' \<noteq> g \<longrightarrow>
           (\<exists>r. currentSquares_st g = Inr r
              \<and> squares_ref (last (history_st g')) = length (store g)
              \<and> store g'
                  = store g @ [array_set (array_slice (store g ! r)) i (mark_for (currentMove_st g))])"
    and "play (contents g) i = Inr (contents g')"
proof -
  from pl obtain r where cur: "currentSquares_st g = Inr r"
    by (auto simp: play_st_def split: sum.splits)
  then have p0: "0 \<le> currentMove_st g"
    by (simp add: currentSquares_st_pointer)
  let ?b = "array_set (array_slice (store g ! r)) i (mark_for (currentMove_st g))"
  let ?loc = "''('' @ string_of_int (js_rem i 3 + 1) @ '', '' @ string_of_int (i div 3 + 1) @ '')''"
  let ?h = "handlePlay_st (g\<lparr>store := store g @ [?b]\<rparr>) (length (store g)) ?loc"
  let ?refused = "calculateWinner (elems (store g ! r)) \<noteq> None \<or> truthy (array_get (store g ! r) i)"
  from pl have g': "g' = (if ?refused then g else ?h)"
    by (simp add: play_st_unfold [OF cur])
  have st: "store ?h = store g @ [?b]"
    by (simp add: store_handlePlay_st)
  have hist: "history_st ?h
      = take (nat (currentMove_st g) + 1) (history_st g) @ [\<lparr>squares_ref = length (store g), location_st = ?loc\<rparr>]"
    using p0 by (simp add: history_handlePlay_st)
  have cm: "currentMove (contents g) = currentMove_st g"
    by (simp add: contents_def)
  show "refs_ok g'"
    using ok p0 by (simp add: g' refs_ok_handlePlay_st)
  show "length (store g) \<le> length (store g')"
    by (simp add: g' store_handlePlay_st)
  show "\<forall>r<length (store g). store g' ! r = store g ! r"
    by (simp add: g' store_handlePlay_st nth_append)
  show "g' \<noteq> g \<longrightarrow>
           (\<exists>r. currentSquares_st g = Inr r
              \<and> squares_ref (last (history_st g')) = length (store g)
              \<and> store g'
                  = store g @ [array_set (array_slice (store g ! r)) i (mark_for (currentMove_st g))])"
  proof
    assume "g' \<noteq> g"
    with g' have h: "g' = ?h" by (simp split: if_splits)
    from hist have "squares_ref (last (history_st ?h)) = length (store g)" by simp
    with cur st show "\<exists>r. currentSquares_st g = Inr r
              \<and> squares_ref (last (history_st g')) = length (store g)
              \<and> store g'
                  = store g @ [array_set (array_slice (store g ! r)) i (mark_for (currentMove_st g))]"
      unfolding h by blast
  qed
  show "play (contents g) i = Inr (contents g')"
    using ok p0
    by (simp add: play_unfold [OF currentSquares_contents [OF cur]] g' cm contents_handlePlay_st)
qed

text \<open>
  C9. A play never writes to an array object that exists before it: it either changes
  nothing or creates one new object, the copy of the current board with the mark
  written into it, and the new history entry refers to that new object. So the board of
  every history entry is after the play what it was before. \<open>jumpTo\<close> and
  \<open>toggleSortOrder\<close> leave store and history as they are. The handlers over the store
  and the handlers over board contents do the same thing.
\<close>

theorem snapshots_never_mutated:
  "(refs_ok g \<longrightarrow>
      (\<forall>i g'. play_st g i = Inr g' \<longrightarrow>
         refs_ok g'
         \<and> length (store g) \<le> length (store g')
         \<and> (\<forall>r<length (store g). store g' ! r = store g ! r)
         \<and> (\<forall>e\<in>set (history_st g). store g' ! squares_ref e = store g ! squares_ref e)
         \<and> (g' \<noteq> g \<longrightarrow>
               (\<exists>r. currentSquares_st g = Inr r
                  \<and> squares_ref (last (history_st g')) = length (store g)
                  \<and> store g'
                      = store g @ [array_set (array_slice (store g ! r)) i (mark_for (currentMove_st g))]))
         \<and> play (contents g) i = Inr (contents g')))
   \<and> store (jumpTo_st g m) = store g \<and> history_st (jumpTo_st g m) = history_st g
   \<and> contents (jumpTo_st g m) = jumpTo (contents g) m
   \<and> store (toggleSortOrder_st g) = store g \<and> history_st (toggleSortOrder_st g) = history_st g
   \<and> contents (toggleSortOrder_st g) = toggleSortOrder (contents g)
   \<and> refs_ok initial_game_st \<and> contents initial_game_st = initial_game"
proof (intro conjI)
  show "refs_ok g \<longrightarrow>
      (\<forall>i g'. play_st g i = Inr g' \<longrightarrow>
         refs_ok g'
         \<and> length (store g) \<le> length (store g')
         \<and> (\<forall>r<length (store g). store g' ! r = store g ! r)
         \<and> (\<forall>e\<in>set (history_st g). store g' ! squares_ref e = store g ! squares_ref e)
         \<and> (g' \<noteq> g \<longrightarrow>
               (\<exists>r. currentSquares_st g = Inr r
                  \<and> squares_ref (last (history_st g')) = length (store g)
                  \<and> store g'
                      = store g @ [array_set (array_slice (store g ! r)) i (mark_for (currentMove_st g))]))
         \<and> play (contents g) i = Inr (contents g'))"
  proof (intro impI allI)
    fix i g'
    assume ok: "refs_ok g" and pl: "play_st g i = Inr g'"
    note F = play_st_frame [OF ok pl]
    have e: "\<forall>e\<in>set (history_st g). store g' ! squares_ref e = store g ! squares_ref e"
      using ok F(3) by (simp add: refs_ok_def)
    show "refs_ok g'
         \<and> length (store g) \<le> length (store g')
         \<and> (\<forall>r<length (store g). store g' ! r = store g ! r)
         \<and> (\<forall>e\<in>set (history_st g). store g' ! squares_ref e = store g ! squares_ref e)
         \<and> (g' \<noteq> g \<longrightarrow>
               (\<exists>r. currentSquares_st g = Inr r
                  \<and> squares_ref (last (history_st g')) = length (store g)
                  \<and> store g'
                      = store g @ [array_set (array_slice (store g ! r)) i (mark_for (currentMove_st g))]))
         \<and> play (contents g) i = Inr (contents g')"
      using F(1) F(2) F(3) e F(4) F(5) by (intro conjI)
  qed
next
  show "store (jumpTo_st g m) = store g" and "history_st (jumpTo_st g m) = history_st g"
    and "contents (jumpTo_st g m) = jumpTo (contents g) m"
    by (simp_all add: jumpTo_st_def jumpTo_def contents_def)
  show "store (toggleSortOrder_st g) = store g"
    and "history_st (toggleSortOrder_st g) = history_st g"
    and "contents (toggleSortOrder_st g) = toggleSortOrder (contents g)"
    by (simp_all add: toggleSortOrder_st_def toggleSortOrder_def contents_def)
  show "refs_ok initial_game_st"
    by (simp add: refs_ok_def initial_game_st_def)
  show "contents initial_game_st = initial_game"
    by (simp add: contents_def initial_game_st_def initial_game_def)
qed

theorem snapshots_never_mutated_witness:
  "play_st initial_game_st 4 = Inr
       \<lparr>store = [plain [Null, Null, Null, Null, Null, Null, Null, Null, Null],
                 plain [Null, Null, Null, Null, MarkX, Null, Null, Null, Null]],
        history_st = [\<lparr>squares_ref = 0, location_st = []\<rparr>,
                      \<lparr>squares_ref = 1, location_st = ''(2, 2)''\<rparr>],
        currentMove_st = 1, isAscending_st = True\<rparr>
   \<and> refs_ok
       \<lparr>store = [plain [Null, Null, Null, Null, Null, Null, Null, Null, Null],
                 plain [Null, Null, Null, Null, MarkX, Null, Null, Null, Null]],
        history_st = [\<lparr>squares_ref = 0, location_st = []\<rparr>,
                      \<lparr>squares_ref = 1, location_st = ''(2, 2)''\<rparr>],
        currentMove_st = 1, isAscending_st = True\<rparr>
   \<and> play_st
       \<lparr>store = [plain [Null, Null, Null, Null, Null, Null, Null, Null, Null],
                 plain [Null, Null, Null, Null, MarkX, Null, Null, Null, Null]],
        history_st = [\<lparr>squares_ref = 0, location_st = []\<rparr>,
                      \<lparr>squares_ref = 1, location_st = ''(2, 2)''\<rparr>],
        currentMove_st = 1, isAscending_st = True\<rparr> 0
     = Inr
       \<lparr>store = [plain [Null, Null, Null, Null, Null, Null, Null, Null, Null],
                 plain [Null, Null, Null, Null, MarkX, Null, Null, Null, Null],
                 plain [MarkO, Null, Null, Null, MarkX, Null, Null, Null, Null]],
        history_st = [\<lparr>squares_ref = 0, location_st = []\<rparr>,
                      \<lparr>squares_ref = 1, location_st = ''(2, 2)''\<rparr>,
                      \<lparr>squares_ref = 2, location_st = ''(1, 1)''\<rparr>],
        currentMove_st = 2, isAscending_st = True\<rparr>
   \<and> refs_ok
       \<lparr>store = [plain [Null, Null, Null, Null, Null, Null, Null, Null, Null],
                 plain [Null, Null, Null, Null, MarkX, Null, Null, Null, Null],
                 plain [MarkO, Null, Null, Null, MarkX, Null, Null, Null, Null]],
        history_st = [\<lparr>squares_ref = 0, location_st = []\<rparr>,
                      \<lparr>squares_ref = 1, location_st = ''(2, 2)''\<rparr>,
                      \<lparr>squares_ref = 2, location_st = ''(1, 1)''\<rparr>],
        currentMove_st = 2, isAscending_st = True\<rparr>
   \<and> play (contents
       \<lparr>store = [plain [Null, Null, Null, Null, Null, Null, Null, Null, Null],
                 plain [Null, Null, Null, Null, MarkX, Null, Null, Null, Null]],
        history_st = [\<lparr>squares_ref = 0, location_st = []\<rparr>,
                      \<lparr>squares_ref = 1, location_st = ''(2, 2)''\<rparr>],
        currentMove_st = 1, isAscending_st = True\<rparr>) 0
     = Inr (contents
       \<lparr>store = [plain [Null, Null, Null, Null, Null, Null, Null, Null, Null],
                 plain [Null, Null, Null, Null, MarkX, Null, Null, Null, Null],
                 plain [MarkO, Null, Null, Null, MarkX, Null, Null, Null, Null]],
        history_st = [\<lparr>squares_ref = 0, location_st = []\<rparr>,
                      \<lparr>squares_ref = 1, location_st = ''(2, 2)''\<rparr>,
                      \<lparr>squares_ref = 2, location_st = ''(1, 1)''\<rparr>],
        currentMove_st = 2, isAscending_st = True\<rparr>)
   \<and> contents
       \<lparr>store = [plain [Null, Null, Null, Null, Null, Null, Null, Null, Null],
                 plain [Null, Null, Null, Null, MarkX, Null, Null, Null, Null]],
        history_st = [\<lparr>squares_ref = 0, location_st = []\<rparr>,
                      \<lparr>squares_ref = 1, location_st = ''(2, 2)''\<rparr>],
        currentMove_st = 1, isAscending_st = True\<rparr>
     = state_after [Play 4]"
proof -
  let ?g1 = "\<lparr>store = [plain [Null, Null, Null, Null, Null, Null, Null, Null, Null],
                 plain [Null, Null, Null, Null, MarkX, Null, Null, Null, Null]],
        history_st = [\<lparr>squares_ref = 0, location_st = []\<rparr>,
                      \<lparr>squares_ref = 1, location_st = ''(2, 2)''\<rparr>],
        currentMove_st = 1, isAscending_st = True\<rparr>"
  let ?g2 = "\<lparr>store = [plain [Null, Null, Null, Null, Null, Null, Null, Null, Null],
                 plain [Null, Null, Null, Null, MarkX, Null, Null, Null, Null],
                 plain [MarkO, Null, Null, Null, MarkX, Null, Null, Null, Null]],
        history_st = [\<lparr>squares_ref = 0, location_st = []\<rparr>,
                      \<lparr>squares_ref = 1, location_st = ''(2, 2)''\<rparr>,
                      \<lparr>squares_ref = 2, location_st = ''(1, 1)''\<rparr>],
        currentMove_st = 2, isAscending_st = True\<rparr>"
  have p0: "play_st initial_game_st 4 = Inr ?g1" by code_simp
  have ok: "refs_ok ?g1" by code_simp
  have pl: "play_st ?g1 0 = Inr ?g2" by code_simp
  have c: "contents ?g1 = state_after [Play 4]" by code_simp
  note T = snapshots_never_mutated [of ?g1, THEN conjunct1, rule_format, OF ok pl]
  from p0 ok pl T [THEN conjunct1]
    T [THEN conjunct2, THEN conjunct2, THEN conjunct2, THEN conjunct2, THEN conjunct2] c
  show ?thesis
    by (simp only: simp_thms)
qed

end
